theory Spec2Isabelle
  imports Complex_Main "HOL-Library.AList" "HOL-Library.Sublist" "HOL-Library.Multiset"
begin

section \<open>Strings: \<open>str.lower\<close> and the substring test \<open>in\<close>\<close>

text \<open>
  Names and filters are Python strings. They are modelled as \<open>string\<close>, a character
  being a code point below 256 (ASCII and Latin-1); strings with other characters are
  outside the model. On these code points \<open>str.lower\<close> works character by character: it
  adds 32 to the capital letters \<open>A\<close> to \<open>Z\<close> (65 to 90) and to the Latin-1 capital letters
  (192 to 222, the multiplication sign 215 apart), and leaves every other character as
  it is.
\<close>

definition lower_char :: "char \<Rightarrow> char" where
  "lower_char c =
     (let n = (of_char c :: nat)
      in if (65 \<le> n \<and> n \<le> 90) \<or> (192 \<le> n \<and> n \<le> 222 \<and> n \<noteq> 215)
         then char_of (n + 32) else c)"

definition lower :: "string \<Rightarrow> string" where
  "lower s = map lower_char s"

text \<open>\<open>sub in s\<close> on strings: \<open>sub\<close> occurs in \<open>s\<close> as a contiguous block.\<close>

fun str_in :: "string \<Rightarrow> string \<Rightarrow> bool" where
  "str_in sub [] = (sub = [])"
| "str_in sub (c # cs) = (prefix sub (c # cs) \<or> str_in sub cs)"

section \<open>Entity model (app/schemas.py)\<close>

text \<open>
  \<open>ItemCreate\<close> declares \<open>name\<close>, \<open>description\<close> (optional, default \<open>None\<close>) and \<open>price\<close>;
  \<open>Item\<close> inherits them and adds \<open>id\<close>. A pydantic instance also remembers which fields
  were given explicitly (\<open>model_fields_set\<close>); \<open>model_dump(exclude_unset=True)\<close> reads it.
  Every \<open>Item\<close> the repositories build has all four fields set, and pydantic's equality
  compares field values only, so \<open>Item\<close> carries no such set. Prices are floats that
  the code only stores and compares; they are modelled as reals, which leaves out the
  infinite price (NaN is no price: \<open>gt=0\<close> rejects it). Values of these types stand for
  instances that passed pydantic's validation; \<open>valid_draft\<close> writes the constraints of
  the schema out.
\<close>

datatype field = Name | Description | Price

record ItemData =
  name :: string
  description :: "string option"
  price :: real

record ItemCreate = ItemData +
  model_fields_set :: "field set"

record Item = ItemData +
  item_id :: int

definition valid_draft :: "ItemCreate \<Rightarrow> bool" where
  "valid_draft d \<longleftrightarrow>
     3 \<le> length (name d) \<and> length (name d) \<le> 50
     \<and> (case description d of None \<Rightarrow> True | Some t \<Rightarrow> length t \<le> 200)
     \<and> 0 < price d
     \<and> Name \<in> model_fields_set d \<and> Price \<in> model_fields_set d
     \<and> (Description \<notin> model_fields_set d \<longrightarrow> description d = None)"

text \<open>\<open>Item(id=i, **item_create.model_dump())\<close>: every field of the draft, plus the id.\<close>

definition Item_of :: "int \<Rightarrow> ItemCreate \<Rightarrow> Item" where
  "Item_of i d = \<lparr>name = name d, description = description d, price = price d, item_id = i\<rparr>"

text \<open>
  \<open>current.model_copy(update=item_update.model_dump(exclude_unset=True))\<close>: the dump holds
  the fields of the draft that were set, and the copy takes exactly those from it.
\<close>

definition model_copy_update :: "Item \<Rightarrow> ItemCreate \<Rightarrow> Item" where
  "model_copy_update cur upd =
     \<lparr>name = (if Name \<in> model_fields_set upd then name upd else name cur),
      description =
        (if Description \<in> model_fields_set upd then description upd else description cur),
      price = (if Price \<in> model_fields_set upd then price upd else price cur),
      item_id = item_id cur\<rparr>"

section \<open>The filter of \<open>list_items\<close> (in_memory.py 37-49, redis_repo.py 60-71)\<close>

text \<open>
  Python's truth test: \<open>if name_filter\<close> fails on \<open>None\<close> and on the empty string,
  \<open>if min_price\<close> fails on \<open>None\<close> and on zero.
\<close>

definition truthy_str :: "string option \<Rightarrow> bool" where
  "truthy_str f = (case f of None \<Rightarrow> False | Some s \<Rightarrow> s \<noteq> [])"

definition truthy_float :: "real option \<Rightarrow> bool" where
  "truthy_float m = (case m of None \<Rightarrow> False | Some x \<Rightarrow> x \<noteq> 0)"

text \<open>One round of the loop body: the two flags, then the append.\<close>

definition filter_step :: "string option \<Rightarrow> real option \<Rightarrow> Item list \<Rightarrow> Item \<Rightarrow> Item list" where
  "filter_step name_filter min_price acc item =
     (let match_name =
            (if truthy_str name_filter \<and> \<not> str_in (lower (the name_filter)) (lower (name item))
             then False else True);
          match_price =
            (if truthy_float min_price \<and> price item < the min_price then False else True)
      in if match_name \<and> match_price then acc @ [item] else acc)"

section \<open>In-memory backend (app/repositories/in_memory.py)\<close>

text \<open>
  \<open>self.items\<close> is a Python dict, which keeps insertion order: an association list
  where \<open>AList.update\<close> overwrites in place or appends, and \<open>AList.delete\<close> removes.
\<close>

record InMemoryRepository =
  items :: "(int \<times> Item) list"
  next_id :: int

definition InMemoryRepository_init :: InMemoryRepository where
  "InMemoryRepository_init = \<lparr>items = [], next_id = 1\<rparr>"

definition mem_get_item :: "InMemoryRepository \<Rightarrow> int \<Rightarrow> Item option" where
  "mem_get_item self i = map_of (items self) i"

definition mem_list_items ::
  "InMemoryRepository \<Rightarrow> string option \<Rightarrow> real option \<Rightarrow> Item list" where
  "mem_list_items self name_filter min_price =
     foldl (filter_step name_filter min_price) [] (map snd (items self))"

definition mem_create_item ::
  "InMemoryRepository \<Rightarrow> ItemCreate \<Rightarrow> InMemoryRepository \<times> Item" where
  "mem_create_item self item_create =
     (let item = Item_of (next_id self) item_create
      in (self\<lparr>items := AList.update (next_id self) item (items self),
                next_id := next_id self + 1\<rparr>, item))"

definition mem_update_item ::
  "InMemoryRepository \<Rightarrow> int \<Rightarrow> ItemCreate \<Rightarrow> InMemoryRepository \<times> Item option" where
  "mem_update_item self i item_update =
     (case map_of (items self) i of
        Some current_item \<Rightarrow>
          (let updated_item = model_copy_update current_item item_update
           in (self\<lparr>items := AList.update i updated_item (items self)\<rparr>, Some updated_item))
      | None \<Rightarrow> (self, None))"

definition mem_delete_item :: "InMemoryRepository \<Rightarrow> int \<Rightarrow> InMemoryRepository \<times> bool" where
  "mem_delete_item self i =
     (if i \<in> fst ` set (items self)
      then (self\<lparr>items := AList.delete i (items self)\<rparr>, True)
      else (self, False))"

section \<open>Exceptions\<close>

text \<open>
  The exceptions that the code raises or lets through: the \<open>ValueError\<close> of
  \<open>get_repository\<close>, with the value it reports, and the \<open>OverflowError\<close> with which the
  \<open>sqlite3\<close> driver refuses an integer parameter that does not fit SQLite's \<open>INTEGER\<close>.
  A call that raises returns \<open>Inl\<close> of the exception.
\<close>

datatype error = ValueError string | OverflowError

section \<open>Relational backend (app/repositories/sqlite.py, app/database.py)\<close>

text \<open>
  The table \<open>items\<close> of \<open>init_db\<close>: rows \<open>(id, name, description, price)\<close>, with
  \<open>id INTEGER PRIMARY KEY AUTOINCREMENT\<close>. The database is the table together with the
  counter that SQLite keeps for AUTOINCREMENT (\<open>sqlite_sequence\<close>): an insert takes one
  more than the largest of that counter and of the ids in the table, and records it.
  Each statement of the repository is one function on this state.
\<close>

type_synonym row = "int \<times> string \<times> string option \<times> real"

record sqlite_db =
  table_items :: "row list"
  sqlite_sequence :: int

definition init_db :: sqlite_db where
  "init_db = \<lparr>table_items = [], sqlite_sequence = 0\<rparr>"

text \<open>\<open>Item(id=row[0], name=row[1], description=row[2], price=row[3])\<close>\<close>

fun Item_of_row :: "row \<Rightarrow> Item" where
  "Item_of_row (i, n, d, p) = \<lparr>name = n, description = d, price = p, item_id = i\<rparr>"

text \<open>
  SQLite's built-in \<open>LOWER\<close> folds the ASCII capital letters only, and leaves every other
  character as it is, the Latin-1 capital letters included.
\<close>

definition sql_lower_char :: "char \<Rightarrow> char" where
  "sql_lower_char c =
     (let n = (of_char c :: nat) in if 65 \<le> n \<and> n \<le> 90 then char_of (n + 32) else c)"

definition sql_lower :: "string \<Rightarrow> string" where
  "sql_lower s = map sql_lower_char s"

text \<open>
  SQLite's \<open>LIKE\<close>: in the pattern \<open>%\<close> stands for any run of characters and \<open>_\<close> for
  any one character; every other character stands for itself, upper and lower case
  ASCII letters alike. The repository's query has no \<open>ESCAPE\<close> clause.
\<close>

fun sql_like :: "string \<Rightarrow> string \<Rightarrow> bool" where
  "sql_like [] [] = True"
| "sql_like [] (c # cs) = False"
| "sql_like (p # ps) [] = (p = CHR ''%'' \<and> sql_like ps [])"
| "sql_like (p # ps) (c # cs) =
     (if p = CHR ''%'' then sql_like ps (c # cs) \<or> sql_like (p # ps) cs
      else (p = CHR ''_'' \<or> sql_lower_char p = sql_lower_char c) \<and> sql_like ps cs)"

text \<open>
  The conditions that \<open>list_items\<close> appends to \<open>WHERE 1=1\<close>, each with its parameter:
  \<open>AND LOWER(name) LIKE LOWER(?)\<close> and \<open>AND price >= ?\<close>.
\<close>

datatype condition = Lower_name_like string | Price_ge real

fun holds :: "condition \<Rightarrow> row \<Rightarrow> bool" where
  "holds (Lower_name_like pat) (i, n, d, p) = sql_like (sql_lower pat) (sql_lower n)"
| "holds (Price_ge m) (i, n, d, p) = (m \<le> p)"

text \<open>\<open>SELECT id, name, description, price FROM items WHERE 1=1 ... ORDER BY id\<close>\<close>

definition sql_select_where :: "sqlite_db \<Rightarrow> condition list \<Rightarrow> row list" where
  "sql_select_where db conds =
     sort_key fst (filter (\<lambda>r. \<forall>c \<in> set conds. holds c r) (table_items db))"

text \<open>
  Binding a parameter. \<open>item_id\<close> is a Python \<open>int\<close>, which has no bound; SQLite's
  \<open>INTEGER\<close> is a signed 64-bit number. The driver converts each integer parameter when
  \<open>execute\<close> is called, before the statement runs, and raises \<open>OverflowError\<close> (Python int
  too large to convert to SQLite INTEGER) for a value outside \<open>-2\<^sup>6\<^sup>3 .. 2\<^sup>6\<^sup>3 - 1\<close>. The
  repository catches nothing, so the exception leaves the method, and the database is
  as it was.
\<close>

definition sqlite_int :: "int \<Rightarrow> bool" where
  "sqlite_int i \<longleftrightarrow> - (2 ^ 63) \<le> i \<and> i < 2 ^ 63"

definition bind_int :: "int \<Rightarrow> error + int" where
  "bind_int i = (if sqlite_int i then Inr i else Inl OverflowError)"

text \<open>\<open>SELECT ... FROM items WHERE id = ?\<close> followed by \<open>fetchone\<close>\<close>

definition sql_select_by_id :: "sqlite_db \<Rightarrow> int \<Rightarrow> error + row option" where
  "sql_select_by_id db i =
     (case bind_int i of
        Inl e \<Rightarrow> Inl e
      | Inr k \<Rightarrow>
          Inr (case filter (\<lambda>r. fst r = k) (table_items db) of [] \<Rightarrow> None | r # _ \<Rightarrow> Some r))"

text \<open>\<open>INSERT INTO items (name, description, price) VALUES (?, ?, ?)\<close>; the result is
  the new database and \<open>cursor.lastrowid\<close>.\<close>

definition sql_insert ::
  "sqlite_db \<Rightarrow> string \<Rightarrow> string option \<Rightarrow> real \<Rightarrow> sqlite_db \<times> int" where
  "sql_insert db n d p =
     (let rid = foldr max (map fst (table_items db)) (sqlite_sequence db) + 1
      in (\<lparr>table_items = table_items db @ [(rid, n, d, p)], sqlite_sequence = rid\<rparr>, rid))"

text \<open>\<open>UPDATE items SET name = ?, description = ?, price = ? WHERE id = ?\<close>; the result
  is the new database and \<open>cursor.rowcount\<close>.\<close>

definition sql_update ::
  "sqlite_db \<Rightarrow> string \<Rightarrow> string option \<Rightarrow> real \<Rightarrow> int \<Rightarrow> error + sqlite_db \<times> nat" where
  "sql_update db n d p i =
     (case bind_int i of
        Inl e \<Rightarrow> Inl e
      | Inr k \<Rightarrow>
          Inr (db\<lparr>table_items := map (\<lambda>r. if fst r = k then (k, n, d, p) else r) (table_items db)\<rparr>,
               length (filter (\<lambda>r. fst r = k) (table_items db))))"

text \<open>\<open>DELETE FROM items WHERE id = ?\<close>, with \<open>cursor.rowcount\<close>\<close>

definition sql_delete :: "sqlite_db \<Rightarrow> int \<Rightarrow> error + sqlite_db \<times> nat" where
  "sql_delete db i =
     (case bind_int i of
        Inl e \<Rightarrow> Inl e
      | Inr k \<Rightarrow>
          Inr (db\<lparr>table_items := filter (\<lambda>r. fst r \<noteq> k) (table_items db)\<rparr>,
               length (filter (\<lambda>r. fst r = k) (table_items db))))"

text \<open>
  The repository: one connection per call, one statement, a commit. A method that
  changes the table returns the database after the call together with what the caller
  gets: the method's value, or the exception that left it.
\<close>

definition sql_get_item :: "sqlite_db \<Rightarrow> int \<Rightarrow> error + Item option" where
  "sql_get_item db i =
     (case sql_select_by_id db i of
        Inl e \<Rightarrow> Inl e
      | Inr (Some row) \<Rightarrow> Inr (Some (Item_of_row row))
      | Inr None \<Rightarrow> Inr None)"

definition sql_list_items :: "sqlite_db \<Rightarrow> string option \<Rightarrow> real option \<Rightarrow> Item list" where
  "sql_list_items db name_filter min_price =
     (let conds = [];
          conds = (if truthy_str name_filter
                   then conds @ [Lower_name_like (''%'' @ the name_filter @ ''%'')] else conds);
          conds = (if truthy_float min_price then conds @ [Price_ge (the min_price)] else conds)
      in map Item_of_row (sql_select_where db conds))"

definition sql_create_item :: "sqlite_db \<Rightarrow> ItemCreate \<Rightarrow> sqlite_db \<times> Item" where
  "sql_create_item db item_create =
     (let (db', lastrowid) =
            sql_insert db (name item_create) (description item_create) (price item_create)
      in (db', Item_of lastrowid item_create))"

definition sql_update_item ::
  "sqlite_db \<Rightarrow> int \<Rightarrow> ItemCreate \<Rightarrow> sqlite_db \<times> (error + Item option)" where
  "sql_update_item db i item_update =
     (case sql_update db (name item_update) (description item_update) (price item_update) i of
        Inl e \<Rightarrow> (db, Inl e)
      | Inr (db', rowcount) \<Rightarrow>
          if rowcount > 0 then (db', sql_get_item db' i) else (db', Inr None))"

definition sql_delete_item :: "sqlite_db \<Rightarrow> int \<Rightarrow> sqlite_db \<times> (error + bool)" where
  "sql_delete_item db i =
     (case sql_delete db i of
        Inl e \<Rightarrow> (db, Inl e)
      | Inr (db', rowcount) \<Rightarrow> (db', Inr (rowcount > 0)))"

section \<open>Key-value backend (app/repositories/redis_repo.py)\<close>

text \<open>
  The Redis server behind the client is modelled as the repository's own test double
  does (\<open>mock_redis_client\<close> in tests/test_redis_repo.py): a keyspace from keys to
  values and the counter that \<open>INCR next_item_id\<close> advances. The keyspace is an
  association list, its order standing for whatever order \<open>SCAN\<close> reports. A value is the
  JSON text of an item; \<open>model_validate_json\<close> reads back what \<open>model_dump_json\<close>
  wrote, and such a text is never empty, so it passes \<open>if item_data\<close>.
\<close>

datatype bytes = Json Item

definition model_dump_json :: "Item \<Rightarrow> bytes" where
  "model_dump_json item = Json item"

fun model_validate_json :: "bytes \<Rightarrow> Item" where
  "model_validate_json (Json item) = item"

record Redis =
  mock_data :: "(string \<times> bytes) list"
  next_id_counter :: int

definition redis_empty :: Redis where
  "redis_empty = \<lparr>mock_data = [], next_id_counter = 0\<rparr>"

definition redis_set :: "Redis \<Rightarrow> string \<Rightarrow> bytes \<Rightarrow> Redis" where
  "redis_set r key v = r\<lparr>mock_data := AList.update key v (mock_data r)\<rparr>"

definition redis_get :: "Redis \<Rightarrow> string \<Rightarrow> bytes option" where
  "redis_get r key = map_of (mock_data r) key"

definition redis_delete :: "Redis \<Rightarrow> string \<Rightarrow> Redis \<times> nat" where
  "redis_delete r key =
     (if key \<in> fst ` set (mock_data r)
      then (r\<lparr>mock_data := AList.delete key (mock_data r)\<rparr>, 1)
      else (r, 0))"

definition redis_incr :: "Redis \<Rightarrow> string \<Rightarrow> Redis \<times> int" where
  "redis_incr r key =
     (if key = ''next_item_id''
      then (r\<lparr>next_id_counter := next_id_counter r + 1\<rparr>, next_id_counter r + 1)
      else (r, 0))"

definition redis_scan_iter :: "Redis \<Rightarrow> string \<Rightarrow> string list" where
  "redis_scan_iter r pattern =
     (if pattern = ''*'' \<or> pattern = ''item:*''
      then filter (prefix ''item:'') (map fst (mock_data r)) else [])"

definition redis_mget :: "Redis \<Rightarrow> string list \<Rightarrow> bytes option list" where
  "redis_mget r keys = map (map_of (mock_data r)) keys"

text \<open>\<open>str(n)\<close> for the f-string \<open>f"{self.key_prefix}{item_id}"\<close>: decimal digits, with a
  minus sign for a negative number. Every int is printed: the interpreter's cap on the
  number of digits of a printed int (4300 unless the runtime is set otherwise) is left
  out.\<close>

fun str_nat :: "nat \<Rightarrow> string" where
  "str_nat n =
     (if n < 10 then [char_of (48 + n)] else str_nat (n div 10) @ [char_of (48 + n mod 10)])"

declare str_nat.simps [simp del]

definition str_int :: "int \<Rightarrow> string" where
  "str_int i = (if i < 0 then CHR ''-'' # str_nat (nat (- i)) else str_nat (nat i))"

definition key_prefix :: string where
  "key_prefix = ''item:''"

definition next_id_key :: string where
  "next_id_key = ''next_item_id''"

definition item_key :: "int \<Rightarrow> string" where
  "item_key i = key_prefix @ str_int i"

definition redis_get_next_id :: "Redis \<Rightarrow> Redis \<times> int" where
  "redis_get_next_id r = redis_incr r next_id_key"

definition redis_get_item :: "Redis \<Rightarrow> int \<Rightarrow> Item option" where
  "redis_get_item r i =
     (case redis_get r (item_key i) of
        Some item_data \<Rightarrow> Some (model_validate_json item_data)
      | None \<Rightarrow> None)"

text \<open>The loop over \<open>items_data\<close>: an absent value is skipped, any other is decoded and
  goes through the same two tests as in the in-memory backend.\<close>

definition redis_list_step ::
  "string option \<Rightarrow> real option \<Rightarrow> Item list \<Rightarrow> bytes option \<Rightarrow> Item list" where
  "redis_list_step name_filter min_price acc item_data =
     (case item_data of
        Some data \<Rightarrow> filter_step name_filter min_price acc (model_validate_json data)
      | None \<Rightarrow> acc)"

definition redis_list_items :: "Redis \<Rightarrow> string option \<Rightarrow> real option \<Rightarrow> Item list" where
  "redis_list_items r name_filter min_price =
     (let all_keys = redis_scan_iter r (key_prefix @ ''*'')
      in if all_keys = [] then []
         else foldl (redis_list_step name_filter min_price) [] (redis_mget r all_keys))"

definition redis_create_item :: "Redis \<Rightarrow> ItemCreate \<Rightarrow> Redis \<times> Item" where
  "redis_create_item r item_create =
     (let (r', new_id) = redis_get_next_id r;
          item = Item_of new_id item_create
      in (redis_set r' (item_key new_id) (model_dump_json item), item))"

definition redis_update_item :: "Redis \<Rightarrow> int \<Rightarrow> ItemCreate \<Rightarrow> Redis \<times> Item option" where
  "redis_update_item r i item_update =
     (case redis_get_item r i of
        Some existing_item \<Rightarrow>
          (let updated_item = model_copy_update existing_item item_update
           in (redis_set r (item_key i) (model_dump_json updated_item), Some updated_item))
      | None \<Rightarrow> (r, None))"

definition redis_delete_item :: "Redis \<Rightarrow> int \<Rightarrow> Redis \<times> bool" where
  "redis_delete_item r i = (let (r', result) = redis_delete r (item_key i) in (r', result > 0))"

section \<open>The storage contract (app/repositories/base.py) and its three implementations\<close>

text \<open>
  A backend is one of the three implementations of \<open>BaseRepository\<close> together with the
  store it works on; a call of a contract method is dispatched on it. The in-memory
  repository uses an id as a dict key and the key-value repository prints it into a
  key, so their methods return a value for every id; those of the relational repository
  pass on what the driver raises.
\<close>

datatype backend =
    InMemoryBackend InMemoryRepository
  | SQLiteBackend sqlite_db
  | RedisBackend Redis

fun get_item :: "backend \<Rightarrow> int \<Rightarrow> error + Item option" where
  "get_item (InMemoryBackend s) i = Inr (mem_get_item s i)"
| "get_item (SQLiteBackend db) i = sql_get_item db i"
| "get_item (RedisBackend r) i = Inr (redis_get_item r i)"

fun list_items :: "backend \<Rightarrow> string option \<Rightarrow> real option \<Rightarrow> Item list" where
  "list_items (InMemoryBackend s) nf mp = mem_list_items s nf mp"
| "list_items (SQLiteBackend db) nf mp = sql_list_items db nf mp"
| "list_items (RedisBackend r) nf mp = redis_list_items r nf mp"

fun create_item :: "backend \<Rightarrow> ItemCreate \<Rightarrow> backend \<times> Item" where
  "create_item (InMemoryBackend s) d = (let (s', it) = mem_create_item s d in (InMemoryBackend s', it))"
| "create_item (SQLiteBackend db) d = (let (db', it) = sql_create_item db d in (SQLiteBackend db', it))"
| "create_item (RedisBackend r) d = (let (r', it) = redis_create_item r d in (RedisBackend r', it))"

fun update_item :: "backend \<Rightarrow> int \<Rightarrow> ItemCreate \<Rightarrow> backend \<times> (error + Item option)" where
  "update_item (InMemoryBackend s) i d =
     (let (s', res) = mem_update_item s i d in (InMemoryBackend s', Inr res))"
| "update_item (SQLiteBackend db) i d =
     (let (db', res) = sql_update_item db i d in (SQLiteBackend db', res))"
| "update_item (RedisBackend r) i d =
     (let (r', res) = redis_update_item r i d in (RedisBackend r', Inr res))"

fun delete_item :: "backend \<Rightarrow> int \<Rightarrow> backend \<times> (error + bool)" where
  "delete_item (InMemoryBackend s) i =
     (let (s', res) = mem_delete_item s i in (InMemoryBackend s', Inr res))"
| "delete_item (SQLiteBackend db) i =
     (let (db', res) = sql_delete_item db i in (SQLiteBackend db', res))"
| "delete_item (RedisBackend r) i =
     (let (r', res) = redis_delete_item r i in (RedisBackend r', Inr res))"

text \<open>The items a backend holds, in the order its store keeps them.\<close>

fun stored :: "backend \<Rightarrow> Item list" where
  "stored (InMemoryBackend s) = map snd (items s)"
| "stored (SQLiteBackend db) = map Item_of_row (table_items db)"
| "stored (RedisBackend r) =
     map (model_validate_json \<circ> snd) (filter (\<lambda>kv. prefix key_prefix (fst kv)) (mock_data r))"

text \<open>The id that the next \<open>create_item\<close> will hand out.\<close>

fun alloc :: "backend \<Rightarrow> int" where
  "alloc (InMemoryBackend s) = next_id s"
| "alloc (SQLiteBackend db) = foldr max (map fst (table_items db)) (sqlite_sequence db) + 1"
| "alloc (RedisBackend r) = next_id_counter r + 1"

subsection \<open>Histories of calls\<close>

text \<open>
  The life of a backend instance is a sequence of calls of the contract, each with its
  reply: the value returned, or \<open>Raised\<close> with the exception. A new in-memory repository
  is empty with \<open>next_id = 1\<close>; the relational store starts as \<open>init_db\<close> leaves a new file,
  the key-value store with no key.
\<close>

datatype storage = IN_MEMORY | SQLITE | REDIS

fun fresh :: "storage \<Rightarrow> backend" where
  "fresh IN_MEMORY = InMemoryBackend InMemoryRepository_init"
| "fresh SQLITE = SQLiteBackend init_db"
| "fresh REDIS = RedisBackend redis_empty"

datatype call =
    Create ItemCreate
  | Update int ItemCreate
  | Delete int
  | Get int
  | List "string option" "real option"

datatype reply =
    Created Item
  | Updated "Item option"
  | Deleted bool
  | Got "Item option"
  | Listed "Item list"
  | Raised error

fun perform :: "backend \<Rightarrow> call \<Rightarrow> backend \<times> reply" where
  "perform b (Create d) = (let (b', it) = create_item b d in (b', Created it))"
| "perform b (Update i d) =
     (let (b', res) = update_item b i d
      in (b', case res of Inl e \<Rightarrow> Raised e | Inr x \<Rightarrow> Updated x))"
| "perform b (Delete i) =
     (let (b', res) = delete_item b i
      in (b', case res of Inl e \<Rightarrow> Raised e | Inr x \<Rightarrow> Deleted x))"
| "perform b (Get i) = (b, case get_item b i of Inl e \<Rightarrow> Raised e | Inr x \<Rightarrow> Got x)"
| "perform b (List nf mp) = (b, Listed (list_items b nf mp))"

fun run :: "backend \<Rightarrow> call list \<Rightarrow> backend \<times> reply list" where
  "run b [] = (b, [])"
| "run b (c # cs) =
     (let (b', r) = perform b c; (b'', rs) = run b' cs in (b'', r # rs))"

text \<open>The ids that \<open>create\<close> handed out in a history, in order.\<close>

fun created_ids :: "reply list \<Rightarrow> int list" where
  "created_ids [] = []"
| "created_ids (Created it # rs) = item_id it # created_ids rs"
| "created_ids (_ # rs) = created_ids rs"

text \<open>The ids created and not deleted since: the set at the start, then each call with
  its reply in turn. A call that raised has created and deleted nothing.\<close>

fun live_ids :: "int set \<Rightarrow> call list \<Rightarrow> reply list \<Rightarrow> int set" where
  "live_ids L (Create d # cs) (Created it # rs) = live_ids (insert (item_id it) L) cs rs"
| "live_ids L (Delete i # cs) (Deleted x # rs) = live_ids (L - {i}) cs rs"
| "live_ids L (c # cs) (r # rs) = live_ids L cs rs"
| "live_ids L _ _ = L"

section \<open>Backend selection (app/config.py, app/dependencies.py)\<close>

text \<open>
  \<open>StorageType\<close> is a \<open>str\<close> enumeration, so \<open>settings.STORAGE_TYPE == StorageType.SQLITE\<close>
  compares strings. The signal of \<open>get_repository\<close> for any other value is a
  \<open>ValueError\<close>, carrying the offending value. The global \<open>_redis_client\<close> is passed
  in and returned.
\<close>

record Settings =
  STORAGE_TYPE :: string
  REDIS_URL :: "string option"
  SQLITE_DATABASE_URL :: string

datatype redis_client = from_url "string option"

datatype repository =
    New_InMemoryRepository InMemoryRepository
  | New_SQLiteRepository
  | New_RedisRepository redis_client

definition get_repository ::
  "Settings \<Rightarrow> redis_client option \<Rightarrow> error + (repository \<times> redis_client option)" where
  "get_repository settings global_client =
     (if STORAGE_TYPE settings = ''in_memory''
      then Inr (New_InMemoryRepository InMemoryRepository_init, global_client)
      else if STORAGE_TYPE settings = ''sqlite''
      then Inr (New_SQLiteRepository, global_client)
      else if STORAGE_TYPE settings = ''redis''
      then (case global_client of
              None \<Rightarrow> (let c = from_url (REDIS_URL settings) in Inr (New_RedisRepository c, Some c))
            | Some c \<Rightarrow> Inr (New_RedisRepository c, Some c))
      else Inl (ValueError (STORAGE_TYPE settings)))"

section \<open>Notions used to state the properties\<close>

text \<open>
  What the contract says a filter selects: a name filter selects the items whose name
  contains it, letter case aside; a minimum price selects the items that cost at least
  as much, except that zero selects everything.
\<close>

definition satisfies_name_filter :: "string option \<Rightarrow> Item \<Rightarrow> bool" where
  "satisfies_name_filter nf it =
     (case nf of None \<Rightarrow> True | Some f \<Rightarrow> sublist (lower f) (lower (name it)))"

definition satisfies_min_price :: "real option \<Rightarrow> Item \<Rightarrow> bool" where
  "satisfies_min_price mp it = (case mp of None \<Rightarrow> True | Some m \<Rightarrow> m = 0 \<or> m \<le> price it)"

text \<open>The condition that the relational backend's query puts on the name of a row.\<close>

definition sql_name_ok :: "string option \<Rightarrow> row \<Rightarrow> bool" where
  "sql_name_ok nf r =
     (case nf of None \<Rightarrow> True
      | Some f \<Rightarrow>
          f = [] \<or> sql_like (sql_lower (''%'' @ f @ ''%'')) (sql_lower (fst (snd r))))"

text \<open>The strings on which \<open>str.lower\<close> and \<open>LOWER\<close> do the same: those of ASCII characters.\<close>

definition ascii :: "string \<Rightarrow> bool" where
  "ascii s \<longleftrightarrow> (\<forall>c \<in> set s. (of_char c :: nat) < 128)"

text \<open>
  A store is well formed when its keys are distinct (a dict, a primary key, a keyspace)
  and every id in it is one that the allocator has handed out already. A new store is
  well formed, and every call of the contract keeps it so.
\<close>

fun wf :: "backend \<Rightarrow> bool" where
  "wf (InMemoryBackend s) \<longleftrightarrow>
     distinct (map fst (items s)) \<and> (\<forall>k \<in> fst ` set (items s). k < next_id s)"
| "wf (SQLiteBackend db) \<longleftrightarrow>
     distinct (map fst (table_items db)) \<and> (\<forall>k \<in> fst ` set (table_items db). k \<le> sqlite_sequence db)"
| "wf (RedisBackend r) \<longleftrightarrow>
     distinct (map fst (mock_data r)) \<and> 0 \<le> next_id_counter r
     \<and> (\<forall>k \<in> fst ` set (mock_data r).
           prefix key_prefix k \<longrightarrow> k \<in> set (map item_key [1..next_id_counter r]))"

text \<open>Which of the three implementations a backend is.\<close>

fun kind :: "backend \<Rightarrow> storage" where
  "kind (InMemoryBackend s) = IN_MEMORY"
| "kind (SQLiteBackend db) = SQLITE"
| "kind (RedisBackend r) = REDIS"

text \<open>
  The item that a store holds under an id: the value under the key in the dict, the
  first row of the table with that id, the document under the key \<open>item:<id>\<close>. This
  reads the store itself, for any id; \<open>get_item\<close> is the method, which for the relational
  backend has to get the id past the driver first.
\<close>

definition sql_held :: "sqlite_db \<Rightarrow> int \<Rightarrow> Item option" where
  "sql_held db i = map_option Item_of_row (List.find (\<lambda>r. fst r = i) (table_items db))"

fun held :: "backend \<Rightarrow> int \<Rightarrow> Item option" where
  "held (InMemoryBackend s) i = mem_get_item s i"
| "held (SQLiteBackend db) i = sql_held db i"
| "held (RedisBackend r) i = redis_get_item r i"

text \<open>The ids that a backend's methods accept without raising.\<close>

fun accepts :: "backend \<Rightarrow> int \<Rightarrow> bool" where
  "accepts (InMemoryBackend s) i = True"
| "accepts (SQLiteBackend db) i = sqlite_int i"
| "accepts (RedisBackend r) i = True"

text \<open>Drafts and stores for the concrete instances below.\<close>

definition laptop :: ItemCreate where
  "laptop = \<lparr>name = ''Laptop'', description = Some ''Fast'', price = 1200.5,
              model_fields_set = {Name, Description, Price}\<rparr>"

definition laptop_pro :: ItemCreate where
  "laptop_pro = \<lparr>name = ''Laptop Pro'', description = None, price = 1200.5,
              model_fields_set = {Name, Price}\<rparr>"

definition one_row_db :: sqlite_db where
  "one_row_db = \<lparr>table_items = [(1, ''Laptop'', Some ''Fast'', 1200.5)], sqlite_sequence = 1\<rparr>"

definition fruit_shelf :: InMemoryRepository where
  "fruit_shelf =
     \<lparr>items = [(1, \<lparr>name = ''Apple'', description = None, price = 10, item_id = 1\<rparr>),
               (2, \<lparr>name = ''Orange'', description = None, price = 20, item_id = 2\<rparr>),
               (3, \<lparr>name = ''Pineapple'', description = None, price = 30, item_id = 3\<rparr>)],
      next_id = 4\<rparr>"

definition laptop_shelf :: InMemoryRepository where
  "laptop_shelf =
     \<lparr>items = [(1, \<lparr>name = ''Laptop'', description = Some ''Fast'', price = 1200.5, item_id = 1\<rparr>)],
      next_id = 2\<rparr>"

definition laptop_keys :: Redis where
  "laptop_keys =
     \<lparr>mock_data =
        [(''item:1'', Json \<lparr>name = ''Laptop'', description = Some ''Fast'', price = 1200.5, item_id = 1\<rparr>)],
      next_id_counter = 1\<rparr>"

definition fruit_table :: sqlite_db where
  "fruit_table =
     \<lparr>table_items = [(1, ''Apple'', None, 10), (2, ''Orange'', None, 20), (3, ''Pineapple'', None, 30)],
      sqlite_sequence = 3\<rparr>"

section \<open>Auxiliary facts\<close>

subsection \<open>Strings and the filter loop\<close>

lemma str_in_sublist: "str_in sub s \<longleftrightarrow> sublist sub s"
  by (induction s) (simp_all add: sublist_Cons_right)

lemma filter_step_eq:
  "filter_step nf mp acc it =
     (if satisfies_name_filter nf it \<and> satisfies_min_price mp it then acc @ [it] else acc)"
  by (auto simp: filter_step_def satisfies_name_filter_def satisfies_min_price_def
      truthy_str_def truthy_float_def str_in_sublist lower_def split: option.splits)

lemma foldl_filter_step:
  "foldl (filter_step nf mp) acc xs =
     acc @ filter (\<lambda>it. satisfies_name_filter nf it \<and> satisfies_min_price mp it) xs"
  by (induction xs arbitrary: acc) (simp_all add: filter_step_eq)

lemma mem_list_items_filter:
  "mem_list_items s nf mp =
     filter (\<lambda>it. satisfies_name_filter nf it \<and> satisfies_min_price mp it) (map snd (items s))"
  by (simp add: mem_list_items_def foldl_filter_step)

lemma foldl_redis_list_step:
  "foldl (redis_list_step nf mp) acc ds =
     acc @ filter (\<lambda>it. satisfies_name_filter nf it \<and> satisfies_min_price mp it)
             (map model_validate_json (List.map_filter id ds))"
  by (induction ds arbitrary: acc)
     (auto simp: redis_list_step_def filter_step_eq List.map_filter_simps split: option.splits)

lemma map_filter_map_of_keys:
  "distinct (map fst al) \<Longrightarrow>
   List.map_filter id (map (map_of al) (filter P (map fst al))) = map snd (filter (\<lambda>kv. P (fst kv)) al)"
proof (induction al)
  case Nil
  then show ?case by (simp add: List.map_filter_simps)
next
  case (Cons a al)
  obtain k v where a: "a = (k, v)" by (cases a)
  from Cons.prems have notin: "k \<notin> fst ` set al" and dist: "distinct (map fst al)"
    by (auto simp: a)
  have same: "map (map_of ((k, v) # al)) (filter P (map fst al)) = map (map_of al) (filter P (map fst al))"
    by (rule map_cong) (use notin in \<open>auto simp: image_iff\<close>)
  have head: "map_of ((k, v) # al) k = Some v" by simp
  show ?case using Cons.IH[OF dist]
    by (cases "P k") (simp_all add: a List.map_filter_simps same head del: map_of.simps)
qed

lemma redis_list_items_filter:
  assumes "distinct (map fst (mock_data r))"
  shows "redis_list_items r nf mp =
     filter (\<lambda>it. satisfies_name_filter nf it \<and> satisfies_min_price mp it)
       (map (model_validate_json \<circ> snd) (filter (\<lambda>kv. prefix key_prefix (fst kv)) (mock_data r)))"
proof -
  let ?keys = "filter (prefix ''item:'') (map fst (mock_data r))"
  have scan: "redis_scan_iter r ''item:*'' = ?keys"
    by (simp add: redis_scan_iter_def)
  have vals: "List.map_filter id (redis_mget r ?keys)
        = map snd (filter (\<lambda>kv. prefix ''item:'' (fst kv)) (mock_data r))"
    unfolding redis_mget_def by (rule map_filter_map_of_keys[OF assms])
  show ?thesis
  proof (cases "?keys = []")
    case True
    then have "filter (\<lambda>kv. prefix ''item:'' (fst kv)) (mock_data r) = []"
      by (simp add: filter_empty_conv filter_map comp_def)
    then show ?thesis using True by (simp add: redis_list_items_def scan key_prefix_def Let_def)
  next
    case False
    then show ?thesis
      by (simp add: redis_list_items_def scan foldl_redis_list_step vals key_prefix_def Let_def)
  qed
qed

lemma str_nat_nonempty: "str_nat n \<noteq> []"
  by (subst str_nat.simps) simp

lemma char_of_digit_inj: "a < 10 \<Longrightarrow> b < 10 \<Longrightarrow> (char_of (48 + a) :: char) = char_of (48 + b) \<Longrightarrow> a = (b::nat)"
proof -
  assume a: "a < 10" and b: "b < 10" and e: "(char_of (48 + a) :: char) = char_of (48 + b)"
  from e have "(of_char (char_of (48 + a) :: char) :: nat) = of_char (char_of (48 + b) :: char)" by simp
  then have "(48 + a) mod 256 = (48 + b) mod 256" by (simp add: of_char_of)
  with a b show ?thesis by simp
qed

lemma str_nat_inj: "str_nat n = str_nat m \<Longrightarrow> n = m"
proof (induction n arbitrary: m rule: str_nat.induct)
  case (1 n)
  show ?case
  proof (cases "n < 10")
    case True
    show ?thesis
    proof (cases "m < 10")
      case m: True
      from "1.prems" True m have "(char_of (48 + n) :: char) = char_of (48 + m)"
        by (simp add: str_nat.simps[of n] str_nat.simps[of m])
      then show ?thesis using True m by (rule char_of_digit_inj[rotated 2])
    next
      case False
      from "1.prems" True False have "length (str_nat (m div 10)) = 0"
        by (simp add: str_nat.simps[of n] str_nat.simps[of m])
      then show ?thesis using str_nat_nonempty by simp
    qed
  next
    case False
    show ?thesis
    proof (cases "m < 10")
      case True
      from "1.prems" True False have "length (str_nat (n div 10)) = 0"
        by (simp add: str_nat.simps[of n] str_nat.simps[of m])
      then show ?thesis using str_nat_nonempty by simp
    next
      case m: False
      from "1.prems" False m
      have eq: "str_nat (n div 10) = str_nat (m div 10)"
        and d: "(char_of (48 + n mod 10) :: char) = char_of (48 + m mod 10)"
        by (simp_all add: str_nat.simps[of n] str_nat.simps[of m])
      from "1.IH"[OF False eq] have "n div 10 = m div 10" .
      moreover from d have "n mod 10 = m mod 10"
        by (rule char_of_digit_inj[rotated 2]) simp_all
      ultimately show ?thesis by (metis div_mult_mod_eq)
    qed
  qed
qed

lemma str_nat_no_minus: "CHR ''-'' \<notin> set (str_nat n)"
proof (induction n rule: str_nat.induct)
  case (1 n)
  have digit: "(char_of (48 + d) :: char) \<noteq> CHR ''-''" if "d < 10" for d :: nat
  proof
    assume "(char_of (48 + d) :: char) = CHR ''-''"
    then have "(of_char (char_of (48 + d) :: char) :: nat) = of_char CHR ''-''" by simp
    then show False using that by (simp add: of_char_of)
  qed
  show ?case
  proof (cases "n < 10")
    case True
    then show ?thesis using digit[of n] by (simp add: str_nat.simps[of n]) 
  next
    case False
    then show ?thesis using "1.IH" digit[of "n mod 10"] by (simp add: str_nat.simps[of n]) 
  qed
qed

lemma str_int_inj: "str_int i = str_int j \<Longrightarrow> i = j"
proof -
  assume e: "str_int i = str_int j"
  have hd_no: "str_nat n \<noteq> CHR ''-'' # s" for n s
    using str_nat_no_minus[of n] by auto
  show ?thesis
  proof (cases "i < 0")
    case True
    show ?thesis
    proof (cases "j < 0")
      case j: True
      from e True j have "str_nat (nat (- i)) = str_nat (nat (- j))" by (simp add: str_int_def)
      then have "nat (- i) = nat (- j)" by (rule str_nat_inj)
      with True j show ?thesis by simp
    next
      case False
      with e True show ?thesis using hd_no[of "nat j" "str_nat (nat (- i))"] by (simp add: str_int_def)
    qed
  next
    case False
    show ?thesis
    proof (cases "j < 0")
      case True
      with e False show ?thesis using hd_no[of "nat i" "str_nat (nat (- j))"] by (simp add: str_int_def)
    next
      case j: False
      from e False j have "str_nat (nat i) = str_nat (nat j)" by (simp add: str_int_def)
      then have "nat i = nat j" by (rule str_nat_inj)
      with False j show ?thesis by simp
    qed
  qed
qed

lemma item_key_inj [simp]: "item_key i = item_key j \<longleftrightarrow> i = j"
  by (auto simp: item_key_def dest: str_int_inj)

lemma item_key_prefix [simp]: "prefix key_prefix (item_key i)"
  by (simp add: item_key_def)

subsection \<open>The in-memory backend, call by call\<close>

lemma mem_get_absent: "mem_get_item s i = None \<longleftrightarrow> i \<notin> fst ` set (items s)"
  by (simp add: mem_get_item_def map_of_eq_None_iff)

lemma mem_create_facts:
  assumes "mem_create_item s d = (s', it)"
  shows "it = Item_of (next_id s) d" and "next_id s' = next_id s + 1"
    and "mem_get_item s' j = (if j = next_id s then Some it else mem_get_item s j)"
    and "items s' = AList.update (next_id s) it (items s)"
  using assms by (auto simp: mem_create_item_def mem_get_item_def Let_def update_conv')

lemma mem_update_present:
  assumes "mem_get_item s i = Some cur" and "mem_update_item s i d = (s', res)"
  shows "res = Some (model_copy_update cur d)" and "next_id s' = next_id s"
    and "mem_get_item s' j = (if j = i then res else mem_get_item s j)"
    and "items s' = AList.update i (model_copy_update cur d) (items s)"
  using assms by (auto simp: mem_update_item_def mem_get_item_def Let_def update_conv')

lemma mem_update_absent:
  "mem_get_item s i = None \<Longrightarrow> mem_update_item s i d = (s, None)"
  by (simp add: mem_update_item_def mem_get_item_def)

lemma mem_delete_facts:
  assumes "mem_delete_item s i = (s', res)"
  shows "res = (mem_get_item s i \<noteq> None)" and "next_id s' = next_id s"
    and "mem_get_item s' j = (if j = i then None else mem_get_item s j)"
    and "items s' = AList.delete i (items s)"
proof -
  show "res = (mem_get_item s i \<noteq> None)"
    using assms by (simp add: mem_delete_item_def mem_get_absent split: if_splits)
  show "next_id s' = next_id s"
    using assms by (auto simp: mem_delete_item_def split: if_splits)
  show it: "items s' = AList.delete i (items s)"
    using assms by (auto simp: mem_delete_item_def split: if_splits)
  show "mem_get_item s' j = (if j = i then None else mem_get_item s j)"
    by (simp add: mem_get_item_def it delete_conv')
qed

subsection \<open>The relational backend, statement by statement\<close>

lemma foldr_max_ge_init: "(a::int) \<le> foldr max xs a"
  by (induction xs) auto

lemma foldr_max_ge_elem: "x \<in> set xs \<Longrightarrow> (x::int) \<le> foldr max xs a"
  by (induction xs) auto

lemma foldr_max_bounded: "\<forall>x \<in> set xs. x \<le> a \<Longrightarrow> foldr max xs a = (a::int)"
  by (induction xs) auto

lemma filter_head_find:
  "(case filter P xs of [] \<Rightarrow> None | r # _ \<Rightarrow> Some r) = List.find P xs"
  by (induction xs) auto

lemma find_fst_None: "List.find (\<lambda>r. fst r = i) rows = None \<longleftrightarrow> i \<notin> fst ` set rows"
  by (induction rows) auto

lemma find_fst_Some: "List.find (\<lambda>r. fst r = i) rows = Some r \<Longrightarrow> fst r = i"
  by (induction rows) (auto split: if_splits)

lemma sql_get_item_held: "sqlite_int i \<Longrightarrow> sql_get_item db i = Inr (sql_held db i)"
  by (simp add: sql_get_item_def sql_select_by_id_def bind_int_def sql_held_def filter_head_find
      split: option.splits)

lemma sql_get_item_overflow: "\<not> sqlite_int i \<Longrightarrow> sql_get_item db i = Inl OverflowError"
  by (simp add: sql_get_item_def sql_select_by_id_def bind_int_def)

lemma sql_held_absent: "sql_held db i = None \<longleftrightarrow> i \<notin> fst ` set (table_items db)"
  by (simp add: sql_held_def find_fst_None)

lemma sql_held_id: "sql_held db i = Some it \<Longrightarrow> item_id it = i"
proof -
  assume "sql_held db i = Some it"
  then obtain r where f: "List.find (\<lambda>r. fst r = i) (table_items db) = Some r" and it: "it = Item_of_row r"
    by (auto simp: sql_held_def)
  from find_fst_Some[OF f] show ?thesis by (cases r) (simp add: it)
qed

lemma find_append_new:
  "\<not> P x \<Longrightarrow> List.find P (xs @ [x]) = List.find P xs"
  "\<forall>y \<in> set xs. \<not> P y \<Longrightarrow> P x \<Longrightarrow> List.find P (xs @ [x]) = Some x"
  by (induction xs) auto

lemma sql_create_facts:
  assumes "sql_create_item db d = (db', it)"
  defines "rid \<equiv> foldr max (map fst (table_items db)) (sqlite_sequence db) + 1"
  shows "it = Item_of rid d"
    and "table_items db' = table_items db @ [(rid, name d, description d, price d)]"
    and "sqlite_sequence db' = rid"
    and "sql_held db' j = (if j = rid then Some it else sql_held db j)"
    and "\<forall>k \<in> fst ` set (table_items db). k < rid"
proof -
  show it: "it = Item_of rid d" and tab: "table_items db' = table_items db @ [(rid, name d, description d, price d)]"
    and "sqlite_sequence db' = rid"
    using assms by (auto simp: sql_create_item_def sql_insert_def Let_def)
  show below: "\<forall>k \<in> fst ` set (table_items db). k < rid"
  proof
    fix k assume "k \<in> fst ` set (table_items db)"
    then have "k \<in> set (map fst (table_items db))" by simp
    from foldr_max_ge_elem[OF this] show "k < rid" by (simp add: rid_def)
  qed
  show "sql_held db' j = (if j = rid then Some it else sql_held db j)"
  proof (cases "j = rid")
    case True
    have "\<forall>y \<in> set (table_items db). \<not> fst y = rid" using below by auto
    then show ?thesis using True
      by (simp add: sql_held_def tab find_append_new it Item_of_def)
  next
    case False
    then show ?thesis
      by (simp add: sql_held_def tab find_append_new)
  qed
qed

lemma find_map_replace_same:
  "List.find (\<lambda>r. fst r = i) (map (\<lambda>r. if fst r = i then (i, x) else r) rows)
     = (if i \<in> fst ` set rows then Some (i, x) else None)"
  by (induction rows) auto

lemma find_map_replace_other:
  "j \<noteq> i \<Longrightarrow> List.find (\<lambda>r. fst r = j) (map (\<lambda>r. if fst r = i then (i, x) else r) rows)
     = List.find (\<lambda>r. fst r = j) rows"
  by (induction rows) auto

lemma find_map_replace:
  "List.find (\<lambda>r. fst r = j) (map (\<lambda>r. if fst r = i then (i, x) else r) rows)
     = (if j = i then (if i \<in> fst ` set rows then Some (i, x) else None)
        else List.find (\<lambda>r. fst r = j) rows)"
  using find_map_replace_same[of i x rows] find_map_replace_other[of j i x rows]
  by (cases "j = i") simp_all

lemma map_fst_replace: "map fst (map (\<lambda>r. if fst r = i then (i, x) else r) rows) = map fst rows"
  by (induction rows) auto

lemma length_filter_pos: "0 < length (filter P xs) \<longleftrightarrow> (\<exists>x \<in> set xs. P x)"
  by (induction xs) auto

lemma sql_update_present:
  assumes "sqlite_int i" and "sql_held db i = Some cur" and "sql_update_item db i d = (db', res)"
  defines "new \<equiv> \<lparr>name = name d, description = description d, price = price d, item_id = i\<rparr>"
  shows "res = Inr (Some new)"
    and "map fst (table_items db') = map fst (table_items db)"
    and "sqlite_sequence db' = sqlite_sequence db"
    and "sql_held db' j = (if j = i then Some new else sql_held db j)"
proof -
  from assms(2) have pres: "i \<in> fst ` set (table_items db)"
    using sql_held_absent[of db i] by simp
  then have cnt: "0 < length (filter (\<lambda>r. fst r = i) (table_items db))"
    unfolding length_filter_pos by force
  let ?rows = "map (\<lambda>r. if fst r = i then (i, name d, description d, price d) else r) (table_items db)"
  from assms(1,3) cnt have db': "db' = db\<lparr>table_items := ?rows\<rparr>"
    and res: "res = sql_get_item (db\<lparr>table_items := ?rows\<rparr>) i"
    by (auto simp: sql_update_item_def sql_update_def bind_int_def)
  show "res = Inr (Some new)"
    using pres by (simp add: res sql_get_item_held[OF assms(1)] sql_held_def find_map_replace new_def)
  show "map fst (table_items db') = map fst (table_items db)"
    by (simp add: db' map_fst_replace)
  show "sqlite_sequence db' = sqlite_sequence db" by (simp add: db')
  show "sql_held db' j = (if j = i then Some new else sql_held db j)"
    using pres by (simp add: db' sql_held_def find_map_replace new_def)
qed

lemma map_replace_absent:
  "i \<notin> fst ` set rows \<Longrightarrow> map (\<lambda>r. if fst r = i then f r else r) rows = rows"
  by (induction rows) auto

lemma filter_fst_absent: "i \<notin> fst ` set rows \<Longrightarrow> filter (\<lambda>r. fst r = i) rows = []"
  by (induction rows) auto

lemma sql_update_absent:
  assumes "sqlite_int i" and "sql_held db i = None"
  shows "sql_update_item db i d = (db, Inr None)"
proof -
  from assms(2) have abs: "i \<notin> fst ` set (table_items db)"
    by (simp add: sql_held_absent)
  show ?thesis
    by (simp add: sql_update_item_def sql_update_def bind_int_def assms(1) filter_fst_absent[OF abs]
        map_replace_absent[OF abs])
qed

lemma sql_update_overflow: "\<not> sqlite_int i \<Longrightarrow> sql_update_item db i d = (db, Inl OverflowError)"
  by (simp add: sql_update_item_def sql_update_def bind_int_def)

lemma sql_delete_facts:
  assumes "sqlite_int i" and "sql_delete_item db i = (db', res)"
  shows "res = Inr (sql_held db i \<noteq> None)"
    and "table_items db' = filter (\<lambda>r. fst r \<noteq> i) (table_items db)"
    and "sqlite_sequence db' = sqlite_sequence db"
    and "sql_held db' j = (if j = i then None else sql_held db j)"
proof -
  from assms have db': "db' = db\<lparr>table_items := filter (\<lambda>r. fst r \<noteq> i) (table_items db)\<rparr>"
    and res: "res = Inr (0 < length (filter (\<lambda>r. fst r = i) (table_items db)))"
    by (auto simp: sql_delete_item_def sql_delete_def bind_int_def)
  show "res = Inr (sql_held db i \<noteq> None)"
    unfolding res length_filter_pos sql_held_absent by force
  show "table_items db' = filter (\<lambda>r. fst r \<noteq> i) (table_items db)" by (simp add: db')
  show "sqlite_sequence db' = sqlite_sequence db" by (simp add: db')
  have "List.find (\<lambda>r. fst r = j) (filter (\<lambda>r. fst r \<noteq> i) rows)
      = (if j = i then None else List.find (\<lambda>r. fst r = j) rows)" for rows :: "row list"
    by (induction rows) auto
  then show "sql_held db' j = (if j = i then None else sql_held db j)"
    by (simp add: db' sql_held_def)
qed

lemma sql_delete_overflow: "\<not> sqlite_int i \<Longrightarrow> sql_delete_item db i = (db, Inl OverflowError)"
  by (simp add: sql_delete_item_def sql_delete_def bind_int_def)

subsection \<open>The key-value backend, call by call\<close>

lemma redis_get_absent: "redis_get_item r i = None \<longleftrightarrow> item_key i \<notin> fst ` set (mock_data r)"
  by (simp add: redis_get_item_def redis_get_def map_of_eq_None_iff[symmetric] split: option.splits)

lemma redis_create_facts:
  assumes "redis_create_item r d = (r', it)"
  shows "it = Item_of (next_id_counter r + 1) d"
    and "next_id_counter r' = next_id_counter r + 1"
    and "mock_data r' = AList.update (item_key (next_id_counter r + 1)) (Json it) (mock_data r)"
    and "redis_get_item r' j = (if j = next_id_counter r + 1 then Some it else redis_get_item r j)"
  using assms
  by (auto simp: redis_create_item_def redis_get_next_id_def redis_incr_def next_id_key_def
      redis_set_def model_dump_json_def redis_get_item_def redis_get_def update_conv' Let_def)

lemma redis_update_present:
  assumes "redis_get_item r i = Some cur" and "redis_update_item r i d = (r', res)"
  shows "res = Some (model_copy_update cur d)"
    and "next_id_counter r' = next_id_counter r"
    and "mock_data r' = AList.update (item_key i) (Json (model_copy_update cur d)) (mock_data r)"
    and "redis_get_item r' j = (if j = i then res else redis_get_item r j)"
  using assms
  by (auto simp: redis_update_item_def redis_set_def model_dump_json_def redis_get_item_def
      redis_get_def update_conv' Let_def)

lemma redis_update_absent:
  "redis_get_item r i = None \<Longrightarrow> redis_update_item r i d = (r, None)"
  by (simp add: redis_update_item_def)

lemma redis_delete_facts:
  assumes "redis_delete_item r i = (r', res)"
  shows "res = (redis_get_item r i \<noteq> None)"
    and "next_id_counter r' = next_id_counter r"
    and "mock_data r' = AList.delete (item_key i) (mock_data r)"
    and "redis_get_item r' j = (if j = i then None else redis_get_item r j)"
proof -
  show "res = (redis_get_item r i \<noteq> None)"
    using assms by (simp add: redis_delete_item_def redis_delete_def redis_get_absent split: if_splits)
  show "next_id_counter r' = next_id_counter r"
    using assms by (auto simp: redis_delete_item_def redis_delete_def split: if_splits)
  show md: "mock_data r' = AList.delete (item_key i) (mock_data r)"
    using assms by (auto simp: redis_delete_item_def redis_delete_def split: if_splits)
  show "redis_get_item r' j = (if j = i then None else redis_get_item r j)"
    by (simp add: redis_get_item_def redis_get_def md delete_conv')
qed

subsection \<open>Listing\<close>

lemma filter_step_empty_name: "filter_step (Some []) mp = filter_step None mp"
  by (simp add: fun_eq_iff filter_step_def truthy_str_def)

lemma filter_step_zero_price: "filter_step nf (Some 0) = filter_step nf None"
  by (simp add: fun_eq_iff filter_step_def truthy_float_def)

lemma holds_Price_ge: "holds (Price_ge m) r = (m \<le> price (Item_of_row r))"
  by (cases r) simp

lemma holds_Lower_name_like:
  "holds (Lower_name_like pat) r = sql_like (sql_lower pat) (sql_lower (fst (snd r)))"
  by (cases r) simp

lemma sql_list_items_filter:
  "sql_list_items db nf mp =
     map Item_of_row (sort_key fst
       (filter (\<lambda>r. sql_name_ok nf r \<and> satisfies_min_price mp (Item_of_row r)) (table_items db)))"
proof -
  have A: "sql_name_ok nf r = holds (Lower_name_like (''%'' @ the nf @ ''%'')) r"
    if "truthy_str nf" for r
    using that by (cases nf) (simp_all add: truthy_str_def sql_name_ok_def holds_Lower_name_like)
  have A': "sql_name_ok nf r" if "\<not> truthy_str nf" for r
    using that by (cases nf) (simp_all add: truthy_str_def sql_name_ok_def)
  have B: "satisfies_min_price mp (Item_of_row r) = holds (Price_ge (the mp)) r"
    if "truthy_float mp" for r
    using that by (cases mp) (simp_all add: truthy_float_def satisfies_min_price_def holds_Price_ge)
  have B': "satisfies_min_price mp it" if "\<not> truthy_float mp" for it
    using that by (cases mp) (simp_all add: truthy_float_def satisfies_min_price_def)
  show ?thesis
    by (cases "truthy_str nf"; cases "truthy_float mp")
      (simp_all add: sql_list_items_def sql_select_where_def A A' B B' conj_commute)
qed

lemma item_id_Item_of_row: "item_id (Item_of_row r) = fst r"
  by (cases r) simp

lemma redis_list_items_raw:
  "redis_list_items r nf mp =
     filter (\<lambda>it. satisfies_name_filter nf it \<and> satisfies_min_price mp it)
       (map model_validate_json
          (List.map_filter id (redis_mget r (redis_scan_iter r (key_prefix @ ''*'')))))"
  by (simp add: redis_list_items_def Let_def foldl_redis_list_step redis_mget_def
      List.map_filter_simps)

lemma satisfies_min_price_None [simp]: "satisfies_min_price None it"
  by (simp add: satisfies_min_price_def)

lemma satisfies_name_filter_None [simp]: "satisfies_name_filter None it"
  by (simp add: satisfies_name_filter_def)

lemma sql_name_ok_None [simp]: "sql_name_ok None r"
  by (simp add: sql_name_ok_def)

lemma list_items_price:
  "list_items b nf mp = filter (satisfies_min_price mp) (list_items b nf None)"
proof (cases b)
  case (InMemoryBackend s)
  then show ?thesis by (simp add: mem_list_items_filter)
next
  case (SQLiteBackend db)
  have "filter (satisfies_min_price mp) (map Item_of_row xs)
      = map Item_of_row (filter (\<lambda>r. satisfies_min_price mp (Item_of_row r)) xs)" for xs
    by (simp add: filter_map comp_def)
  with SQLiteBackend show ?thesis
    by (simp add: sql_list_items_filter filter_sort)
next
  case (RedisBackend r)
  then show ?thesis by (simp add: redis_list_items_raw)
qed

lemma list_items_all: "wf b \<Longrightarrow> mset (list_items b None None) = mset (stored b)"
proof (cases b)
  case (InMemoryBackend s)
  then show ?thesis by (simp add: mem_list_items_filter)
next
  case (SQLiteBackend db)
  then show ?thesis by (simp add: sql_list_items_filter)
next
  case (RedisBackend r)
  assume "wf b"
  with RedisBackend have "distinct (map fst (mock_data r))" by simp
  from redis_list_items_filter[OF this, of None None] RedisBackend show ?thesis by simp
qed

subsection \<open>The contract, call by call\<close>

lemma set_update_subset: "set (AList.update k v al) \<subseteq> insert (k, v) (set al)"
  by (induction al) auto

lemma set_delete_subset: "set (AList.delete k al) \<subseteq> set al"
  by (auto simp: AList.delete_eq)

lemma foldr_max_append_self:
  "\<forall>x \<in> set xs. x \<le> (a::int) \<Longrightarrow> foldr max (xs @ [a]) a = a"
  by (simp add: foldr_max_bounded)

lemma accepts_kind: "kind b' = kind b \<Longrightarrow> accepts b' i = accepts b i"
  by (cases b; cases b') simp_all

lemma get_item_held:
  "get_item b i = (if accepts b i then Inr (held b i) else Inl OverflowError)"
  by (cases b) (simp_all add: sql_get_item_held sql_get_item_overflow)

lemma get_item_Some: "get_item b i = Inr (Some it) \<longleftrightarrow> accepts b i \<and> held b i = Some it"
  by (simp add: get_item_held)

lemma get_item_None: "get_item b i = Inr None \<longleftrightarrow> accepts b i \<and> held b i = None"
  by (simp add: get_item_held)

lemma get_item_raises: "get_item b i = Inl e \<longleftrightarrow> \<not> accepts b i \<and> e = OverflowError"
  by (auto simp: get_item_held)

lemma update_item_raises: "\<not> accepts b i \<Longrightarrow> update_item b i d = (b, Inl OverflowError)"
  by (cases b) (simp_all add: sql_update_overflow)

lemma delete_item_raises: "\<not> accepts b i \<Longrightarrow> delete_item b i = (b, Inl OverflowError)"
  by (cases b) (simp_all add: sql_delete_overflow)

lemma fresh_empty: "held (fresh k) j = None"
  by (cases k)
    (simp_all add: mem_get_item_def InMemoryRepository_init_def sql_held_def
      init_db_def redis_get_item_def redis_get_def redis_empty_def)

lemma wf_fresh: "wf (fresh k)"
  by (cases k) (simp_all add: InMemoryRepository_init_def init_db_def redis_empty_def)

lemma wf_below: "wf b \<Longrightarrow> held b j \<noteq> None \<Longrightarrow> j < alloc b"
proof (cases b)
  case (InMemoryBackend s)
  assume "wf b" "held b j \<noteq> None"
  with InMemoryBackend show ?thesis by (auto simp: mem_get_absent)
next
  case (SQLiteBackend db)
  assume "wf b" "held b j \<noteq> None"
  with SQLiteBackend have "j \<in> set (map fst (table_items db))" by (simp add: sql_held_absent)
  from foldr_max_ge_elem[OF this, of "sqlite_sequence db"] SQLiteBackend show ?thesis by simp
next
  case (RedisBackend r)
  assume w: "wf b" and g: "held b j \<noteq> None"
  from g RedisBackend have "item_key j \<in> fst ` set (mock_data r)" by (simp add: redis_get_absent)
  then obtain kv where kv: "kv \<in> set (mock_data r)" "fst kv = item_key j" by auto
  from w RedisBackend kv(1) have "prefix key_prefix (fst kv) \<longrightarrow> fst kv \<in> item_key ` {1..next_id_counter r}"
    by simp
  with kv(2) have "item_key j \<in> item_key ` {1..next_id_counter r}" by simp
  then have "j \<le> next_id_counter r" by auto
  with RedisBackend show ?thesis by simp
qed

lemma create_item_facts:
  assumes "create_item b d = (b', it)"
  shows "it = Item_of (alloc b) d" and "alloc b' = alloc b + 1"
    and "held b' j = (if j = alloc b then Some it else held b j)"
    and "wf b \<Longrightarrow> wf b'"
proof -
  have "it = Item_of (alloc b) d \<and> alloc b' = alloc b + 1
      \<and> held b' j = (if j = alloc b then Some it else held b j) \<and> (wf b \<longrightarrow> wf b')"
  proof (cases b)
    case (InMemoryBackend s)
    with assms obtain s' where c: "mem_create_item s d = (s', it)" and b': "b' = InMemoryBackend s'"
      by (auto split: prod.splits)
    note f = mem_create_facts[OF c]
    have "wf b'" if "wf b"
      using that InMemoryBackend b' f(2,4)
      by (auto simp: distinct_update dom_update)
    with InMemoryBackend b' f(1,2) f(3)[of j] show ?thesis by simp
  next
    case (SQLiteBackend db)
    with assms obtain db' where c: "sql_create_item db d = (db', it)" and b': "b' = SQLiteBackend db'"
      by (auto split: prod.splits)
    note f = sql_create_facts[OF c]
    let ?rid = "foldr max (map fst (table_items db)) (sqlite_sequence db) + 1"
    have le: "\<forall>x \<in> set (map fst (table_items db)). x \<le> ?rid" using f(5) by auto
    have al: "alloc b' = ?rid + 1"
      using foldr_max_append_self[OF le] by (simp add: b' f(2,3))
    have "wf b'" if "wf b"
      using that SQLiteBackend b' f(2,3,5) by auto
    with SQLiteBackend b' f(1) f(4)[of j] al show ?thesis by simp
  next
    case (RedisBackend r)
    with assms obtain r' where c: "redis_create_item r d = (r', it)" and b': "b' = RedisBackend r'"
      by (auto split: prod.splits)
    note f = redis_create_facts[OF c]
    have "wf b'" if "wf b"
    proof -
      from that RedisBackend have d: "distinct (map fst (mock_data r))" and n: "0 \<le> next_id_counter r"
        and ks: "\<forall>k \<in> fst ` set (mock_data r). prefix key_prefix k \<longrightarrow> k \<in> item_key ` {1..next_id_counter r}"
        by simp_all
      have "\<forall>k \<in> fst ` set (mock_data r'). prefix key_prefix k \<longrightarrow> k \<in> item_key ` {1..next_id_counter r + 1}"
      proof (intro ballI impI)
        fix k assume "k \<in> fst ` set (mock_data r')" and p: "prefix key_prefix k"
        then have "k = item_key (next_id_counter r + 1) \<or> k \<in> fst ` set (mock_data r)"
          by (simp add: f(3) dom_update)
        then show "k \<in> item_key ` {1..next_id_counter r + 1}"
        proof
          assume "k = item_key (next_id_counter r + 1)"
          with n show ?thesis by simp
        next
          assume "k \<in> fst ` set (mock_data r)"
          with ks p have "k \<in> item_key ` {1..next_id_counter r}" by blast
          then show ?thesis by auto
        qed
      qed
      with d n show ?thesis by (simp add: b' f(2,3) distinct_update)
    qed
    with RedisBackend b' f(1,2) f(4)[of j] show ?thesis by simp
  qed
  then show "it = Item_of (alloc b) d" and "alloc b' = alloc b + 1"
    and "held b' j = (if j = alloc b then Some it else held b j)"
    and "wf b \<Longrightarrow> wf b'" by simp_all
qed

lemma update_item_present:
  assumes "accepts b i" and "held b i = Some cur" and "update_item b i d = (b', res)"
  shows "\<exists>it'. res = Inr (Some it') \<and> (item_id cur = i \<longrightarrow> item_id it' = i)
           \<and> (kind b \<noteq> SQLITE \<longrightarrow> it' = model_copy_update cur d)
           \<and> (kind b = SQLITE \<longrightarrow>
                 it' = \<lparr>name = name d, description = description d, price = price d, item_id = i\<rparr>)"
    and "alloc b' = alloc b"
    and "res = Inr (held b' i)"
    and "j \<noteq> i \<Longrightarrow> held b' j = held b j"
    and "wf b \<Longrightarrow> wf b'"
    and "kind b' = kind b"
proof -
  have "(\<exists>it'. res = Inr (Some it') \<and> (item_id cur = i \<longrightarrow> item_id it' = i)
           \<and> (kind b \<noteq> SQLITE \<longrightarrow> it' = model_copy_update cur d)
           \<and> (kind b = SQLITE \<longrightarrow>
                 it' = \<lparr>name = name d, description = description d, price = price d, item_id = i\<rparr>))
      \<and> alloc b' = alloc b
      \<and> res = Inr (held b' i) \<and> (j \<noteq> i \<longrightarrow> held b' j = held b j) \<and> (wf b \<longrightarrow> wf b')
      \<and> kind b' = kind b"
  proof (cases b)
    case (InMemoryBackend s)
    with assms obtain s' res' where c: "mem_update_item s i d = (s', res')"
      and b': "b' = InMemoryBackend s'" and res: "res = Inr res'"
      by (auto split: prod.splits)
    from assms(2) InMemoryBackend have g: "mem_get_item s i = Some cur" by simp
    note f = mem_update_present[OF g c]
    from g have pres: "i \<in> fst ` set (items s)" using mem_get_absent[of s i] by simp
    have "wf b'" if "wf b"
      using that InMemoryBackend b' f(2,4) pres
      by (auto simp: distinct_update dom_update)
    with InMemoryBackend b' res f(1,2) f(3)[of j] f(3)[of i] show ?thesis
      by (simp add: model_copy_update_def)
  next
    case (SQLiteBackend db)
    with assms obtain db' where c: "sql_update_item db i d = (db', res)" and b': "b' = SQLiteBackend db'"
      by (auto split: prod.splits)
    from assms(1) SQLiteBackend have a: "sqlite_int i" by simp
    from assms(2) SQLiteBackend have g: "sql_held db i = Some cur" by simp
    note f = sql_update_present[OF a g c]
    have "wf b'" if "wf b"
      using that SQLiteBackend b' f(2,3) by (simp flip: set_map)
    with SQLiteBackend b' f(1,2,3) f(4)[of j] f(4)[of i] show ?thesis by simp
  next
    case (RedisBackend r)
    with assms obtain r' res' where c: "redis_update_item r i d = (r', res')"
      and b': "b' = RedisBackend r'" and res: "res = Inr res'"
      by (auto split: prod.splits)
    from assms(2) RedisBackend have g: "redis_get_item r i = Some cur" by simp
    note f = redis_update_present[OF g c]
    from g have pres: "item_key i \<in> fst ` set (mock_data r)" using redis_get_absent[of r i] by simp
    have keys: "fst ` set (mock_data r') = fst ` set (mock_data r)"
      using pres by (auto simp: f(3) dom_update)
    have "wf b'" if "wf b"
    proof -
      from that have "distinct (map fst (mock_data r))" and "0 \<le> next_id_counter r"
        and "\<forall>k \<in> fst ` set (mock_data r).
           prefix key_prefix k \<longrightarrow> k \<in> set (map item_key [1..next_id_counter r])"
        unfolding RedisBackend wf.simps by blast+
      then show ?thesis unfolding b' wf.simps keys f(2)
        by (simp add: f(3) distinct_update)
    qed
    with RedisBackend b' res f(1,2) f(4)[of j] f(4)[of i] show ?thesis
      by (simp add: model_copy_update_def)
  qed
  then show "\<exists>it'. res = Inr (Some it') \<and> (item_id cur = i \<longrightarrow> item_id it' = i)
           \<and> (kind b \<noteq> SQLITE \<longrightarrow> it' = model_copy_update cur d)
           \<and> (kind b = SQLITE \<longrightarrow>
                 it' = \<lparr>name = name d, description = description d, price = price d, item_id = i\<rparr>)"
    and "alloc b' = alloc b"
    and "res = Inr (held b' i)"
    and "j \<noteq> i \<Longrightarrow> held b' j = held b j"
    and "wf b \<Longrightarrow> wf b'"
    and "kind b' = kind b" by blast+
qed

lemma delete_item_facts:
  assumes "accepts b i" and "delete_item b i = (b', res)"
  shows "held b' j = (if j = i then None else held b j)"
    and "wf b \<Longrightarrow> wf b'" and "wf b \<Longrightarrow> alloc b' = alloc b"
    and "kind b \<noteq> SQLITE \<longrightarrow> alloc b' = alloc b"
    and "res = Inr (held b i \<noteq> None)"
    and "kind b' = kind b"
proof -
  have "held b' j = (if j = i then None else held b j) \<and> (wf b \<longrightarrow> wf b' \<and> alloc b' = alloc b)
      \<and> (kind b \<noteq> SQLITE \<longrightarrow> alloc b' = alloc b) \<and> res = Inr (held b i \<noteq> None)
      \<and> kind b' = kind b"
  proof (cases b)
    case (InMemoryBackend s)
    with assms obtain s' res' where c: "mem_delete_item s i = (s', res')"
      and b': "b' = InMemoryBackend s'" and res: "res = Inr res'"
      by (auto split: prod.splits)
    note f = mem_delete_facts[OF c]
    have "wf b'" if "wf b"
      using that InMemoryBackend b' f(2,4) set_delete_subset[of i "items s"]
      by (auto simp: distinct_delete)
    with InMemoryBackend b' res f(1,2) f(3)[of j] show ?thesis by simp
  next
    case (SQLiteBackend db)
    with assms obtain db' where c: "sql_delete_item db i = (db', res)" and b': "b' = SQLiteBackend db'"
      by (auto split: prod.splits)
    from assms(1) SQLiteBackend have a: "sqlite_int i" by simp
    note f = sql_delete_facts[OF a c]
    have "wf b' \<and> alloc b' = alloc b" if "wf b"
    proof -
      from that SQLiteBackend have d: "distinct (map fst (table_items db))"
        and le: "\<forall>x \<in> set (map fst (table_items db)). x \<le> sqlite_sequence db" by simp_all
      have le': "\<forall>x \<in> set (map fst (table_items db')). x \<le> sqlite_sequence db" using le f(2) by auto
      have d': "distinct (map fst (table_items db'))" using d by (simp add: f(2) distinct_map_filter)
      show ?thesis using d' le' foldr_max_bounded[OF le] foldr_max_bounded[OF le']
        by (simp add: SQLiteBackend b' f(3))
    qed
    with SQLiteBackend b' f(1) f(4)[of j] show ?thesis by simp
  next
    case (RedisBackend r)
    with assms obtain r' res' where c: "redis_delete_item r i = (r', res')"
      and b': "b' = RedisBackend r'" and res: "res = Inr res'"
      by (auto split: prod.splits)
    note f = redis_delete_facts[OF c]
    have "wf b'" if "wf b"
      using that RedisBackend b' f(2,3) set_delete_subset[of "item_key i" "mock_data r"]
      by (auto simp: distinct_delete)
    with RedisBackend b' res f(1,2) f(4)[of j] show ?thesis by simp
  qed
  then show "held b' j = (if j = i then None else held b j)"
    and "wf b \<Longrightarrow> wf b'" and "wf b \<Longrightarrow> alloc b' = alloc b"
    and "kind b \<noteq> SQLITE \<longrightarrow> alloc b' = alloc b"
    and "res = Inr (held b i \<noteq> None)"
    and "kind b' = kind b" by simp_all
qed

lemma update_item_absent:
  "accepts b i \<Longrightarrow> held b i = None \<Longrightarrow> update_item b i d = (b, Inr None)"
  by (cases b) (simp_all add: mem_update_absent sql_update_absent redis_update_absent)

lemma created_ids_case_sum [simp]:
  "created_ids [case res of Inl e \<Rightarrow> Raised e | Inr x \<Rightarrow> Updated x] = []"
  "created_ids [case res' of Inl e \<Rightarrow> Raised e | Inr y \<Rightarrow> Deleted y] = []"
  "created_ids [case res'' of Inl e \<Rightarrow> Raised e | Inr z \<Rightarrow> Got z] = []"
  by (simp_all split: sum.splits)

lemma perform_facts:
  assumes w: "wf b" and p: "perform b c = (b', r)"
  shows "wf b' \<and> created_ids [r] = (case c of Create d \<Rightarrow> [alloc b] | _ \<Rightarrow> [])
     \<and> alloc b' = alloc b + int (length (created_ids [r]))
     \<and> {j. held b' j \<noteq> None} = live_ids {j. held b j \<noteq> None} [c] [r]
     \<and> ((\<forall>j it. held b j = Some it \<longrightarrow> item_id it = j)
          \<longrightarrow> (\<forall>j it. held b' j = Some it \<longrightarrow> item_id it = j))"
    (is "?W \<and> ?C \<and> ?A \<and> ?L \<and> ?I")
proof (cases c)
  case (Create d)
  from p Create obtain it where c: "create_item b d = (b', it)" and r: "r = Created it"
    by (auto split: prod.splits)
  note f = create_item_facts[OF c]
  have id: "item_id it = alloc b" by (simp add: f(1) Item_of_def)
  have W: ?W by (rule f(4)[OF w])
  have C: ?C by (simp add: Create r id)
  have A: ?A by (simp add: r f(2))
  have L: ?L
  proof -
    have "{j. held b' j \<noteq> None} = insert (alloc b) {j. held b j \<noteq> None}"
    proof (rule set_eqI)
      fix j
      show "j \<in> {j. held b' j \<noteq> None} \<longleftrightarrow> j \<in> insert (alloc b) {j. held b j \<noteq> None}"
        by (cases "j = alloc b") (simp_all add: f(3))
    qed
    then show ?thesis by (simp add: Create r id)
  qed
  have I: ?I
  proof (intro impI allI)
    fix j x assume H: "\<forall>j it. held b j = Some it \<longrightarrow> item_id it = j"
      and g: "held b' j = Some x"
    show "item_id x = j"
    proof (cases "j = alloc b")
      case True
      with g have "x = it" by (simp add: f(3))
      with id True show ?thesis by simp
    next
      case False
      with g have "held b j = Some x" by (simp add: f(3))
      with H show ?thesis by blast
    qed
  qed
  from W C A L I show ?thesis by blast
next
  case (Update i d)
  from p Update obtain res where u: "update_item b i d = (b', res)"
    and r: "r = (case res of Inl e \<Rightarrow> Raised e | Inr x \<Rightarrow> Updated x)"
    by (auto split: prod.splits)
  have C: ?C by (simp add: Update r)
  have same: ?thesis if b': "b' = b" and nd: "\<And>L. live_ids L [c] [r] = L"
  proof -
    have W: ?W using w by (simp add: b')
    have A: ?A using C by (simp add: b' Update)
    have L: ?L by (simp add: nd b')
    have I: ?I unfolding b' by (rule impI)
    from W C A L I show ?thesis by blast
  qed
  have nd: "live_ids L [c] [r] = L" for L
    by (cases res) (simp_all add: Update r)
  show ?thesis
  proof (cases "accepts b i")
    case False
    from update_item_raises[OF False, of d] u have "b' = b" by simp
    then show ?thesis using nd by (rule same)
  next
    case acc: True
    show ?thesis
    proof (cases "held b i")
      case None
      from update_item_absent[OF acc None, of d] u have "b' = b" by simp
      then show ?thesis using nd by (rule same)
    next
      case (Some cur)
      note f = update_item_present[OF acc Some u]
      from f(1) obtain it' where res: "res = Inr (Some it')" and idk: "item_id cur = i \<longrightarrow> item_id it' = i"
        by blast
      from f(3) res have hi: "held b' i = Some it'" by simp
      have W: ?W by (rule f(5)[OF w])
      have A: ?A using C by (simp add: f(2) Update)
      have L: ?L
      proof -
        have "{j. held b' j \<noteq> None} = {j. held b j \<noteq> None}"
        proof (rule set_eqI)
          fix j
          show "j \<in> {j. held b' j \<noteq> None} \<longleftrightarrow> j \<in> {j. held b j \<noteq> None}"
            using Some hi f(4)[of j] by (cases "j = i") simp_all
        qed
        then show ?thesis by (simp add: nd)
      qed
      have I: ?I
      proof (intro impI allI)
        fix j x assume H: "\<forall>j it. held b j = Some it \<longrightarrow> item_id it = j"
          and g: "held b' j = Some x"
        show "item_id x = j"
        proof (cases "j = i")
          case True
          with g hi have "x = it'" by simp
          moreover from H Some have "item_id cur = i" by blast
          ultimately show ?thesis using idk True by simp
        next
          case False
          with g f(4)[of j] have "held b j = Some x" by simp
          with H show ?thesis by blast
        qed
      qed
      from W C A L I show ?thesis by blast
    qed
  qed
next
  case (Delete i)
  from p Delete obtain res where d: "delete_item b i = (b', res)"
    and r: "r = (case res of Inl e \<Rightarrow> Raised e | Inr x \<Rightarrow> Deleted x)"
    by (auto split: prod.splits)
  have C: ?C by (simp add: Delete r)
  show ?thesis
  proof (cases "accepts b i")
    case False
    from delete_item_raises[OF False] d have b': "b' = b" and res: "res = Inl OverflowError"
      by simp_all
    have W: ?W using w by (simp add: b')
    have A: ?A using C by (simp add: b' Delete)
    have L: ?L by (simp add: Delete r res b')
    have I: ?I unfolding b' by (rule impI)
    from W C A L I show ?thesis by blast
  next
    case acc: True
    note f = delete_item_facts[OF acc d]
    have W: ?W by (rule f(2)[OF w])
    have A: ?A using C by (simp add: f(3)[OF w] Delete)
    have L: ?L
    proof -
      have "{j. held b' j \<noteq> None} = {j. held b j \<noteq> None} - {i}"
      proof (rule set_eqI)
        fix j
        show "j \<in> {j. held b' j \<noteq> None} \<longleftrightarrow> j \<in> {j. held b j \<noteq> None} - {i}"
          by (cases "j = i") (simp_all add: f(1))
      qed
      then show ?thesis by (simp add: Delete r f(5))
    qed
    have I: ?I
    proof (intro impI allI)
      fix j x assume H: "\<forall>j it. held b j = Some it \<longrightarrow> item_id it = j"
        and g: "held b' j = Some x"
      from g have "held b j = Some x" by (cases "j = i") (simp_all add: f(1))
      with H show "item_id x = j" by blast
    qed
    from W C A L I show ?thesis by blast
  qed
next
  case (Get i)
  from p Get have b': "b' = b"
    and r: "r = (case get_item b i of Inl e \<Rightarrow> Raised e | Inr x \<Rightarrow> Got x)" by auto
  have W: ?W using w by (simp add: b')
  have C: ?C by (simp add: Get r)
  have A: ?A using C by (simp add: b' Get)
  have L: ?L by (cases "get_item b i") (simp_all add: Get r b')
  have I: ?I unfolding b' by (rule impI)
  from W C A L I show ?thesis by blast
next
  case (List nf mp)
  from p List have b': "b' = b" and r: "r = Listed (list_items b nf mp)" by auto
  have W: ?W using w by (simp add: b')
  have C: ?C by (simp add: List r)
  have A: ?A by (simp add: r b')
  have L: ?L by (simp add: List r b')
  have I: ?I unfolding b' by (rule impI)
  from W C A L I show ?thesis by blast
qed

lemma perform_kind: "perform b c = (b', r) \<Longrightarrow> kind b' = kind b"
proof (cases c)
  case (Create d)
  assume "perform b c = (b', r)"
  with Create show ?thesis by (cases b) (auto split: prod.splits)
next
  case (Update i d)
  assume "perform b c = (b', r)"
  with Update show ?thesis by (cases b) (auto split: prod.splits)
next
  case (Delete i)
  assume "perform b c = (b', r)"
  with Delete show ?thesis by (cases b) (auto split: prod.splits)
next
  case (Get i)
  assume "perform b c = (b', r)"
  with Get show ?thesis by simp
next
  case (List nf mp)
  assume "perform b c = (b', r)"
  with List show ?thesis by simp
qed

subsection \<open>Histories\<close>

lemma created_ids_Cons: "created_ids (r # rs) = created_ids [r] @ created_ids rs"
  by (cases r) simp_all

lemma live_ids_Cons: "live_ids L (c # cs) (r # rs) = live_ids (live_ids L [c] [r]) cs rs"
  by (cases c; cases r) simp_all

lemma map_upt_shift:
  "map (\<lambda>n. a + int n) [0..<Suc k] = a # map (\<lambda>n. (a + 1) + int n) [0..<k]"
proof -
  have "[0..<Suc k] = 0 # map Suc [0..<k]"
    by (simp only: map_Suc_upt upt_conv_Cons[of 0 "Suc k"] zero_less_Suc)
  then have "map (\<lambda>n. a + int n) [0..<Suc k] = (a + int 0) # map (\<lambda>n. a + int (Suc n)) [0..<k]"
    by (simp only: list.map map_map comp_def)
  then show ?thesis by (simp add: add.assoc add.commute)
qed

lemma run_kind: "run b0 cs = (b, rs) \<Longrightarrow> kind b = kind b0"
proof (induction cs arbitrary: b0 rs)
  case Nil
  then show ?case by simp
next
  case (Cons c cs)
  from Cons.prems obtain bm r rs' where p: "perform b0 c = (bm, r)"
    and run: "run bm cs = (b, rs')"
    by (auto split: prod.splits)
  from Cons.IH[OF run] perform_kind[OF p] show ?case by simp
qed

lemma run_facts:
  assumes "wf b0" and "run b0 cs = (b, rs)"
  shows "wf b \<and> created_ids rs = map (\<lambda>n. alloc b0 + int n) [0..<length (created_ids rs)]
     \<and> alloc b = alloc b0 + int (length (created_ids rs))
     \<and> {j. held b j \<noteq> None} = live_ids {j. held b0 j \<noteq> None} cs rs
     \<and> ((\<forall>j it. held b0 j = Some it \<longrightarrow> item_id it = j)
          \<longrightarrow> (\<forall>j it. held b j = Some it \<longrightarrow> item_id it = j))"
  using assms
proof (induction cs arbitrary: b0 rs)
  case Nil
  then have "b = b0" and "rs = []" by simp_all
  with Nil.prems(1) show ?case by simp
next
  case (Cons c cs)
  from Cons.prems(2) obtain b1 r rs' where p: "perform b0 c = (b1, r)"
    and run: "run b1 cs = (b, rs')" and rs: "rs = r # rs'"
    by (auto split: prod.splits)
  note pf = perform_facts[OF Cons.prems(1) p]
  from pf have w1: "wf b1" by (rule conjunct1)
  from pf have c1: "created_ids [r] = (case c of Create d \<Rightarrow> [alloc b0] | _ \<Rightarrow> [])" by blast
  from pf have a1: "alloc b1 = alloc b0 + int (length (created_ids [r]))" by blast
  from pf have l1: "{j. held b1 j \<noteq> None} = live_ids {j. held b0 j \<noteq> None} [c] [r]" by blast
  from pf have i1: "(\<forall>j it. held b0 j = Some it \<longrightarrow> item_id it = j)
          \<longrightarrow> (\<forall>j it. held b1 j = Some it \<longrightarrow> item_id it = j)" by blast
  note ih = Cons.IH[OF w1 run]
  from ih have w: "wf b" by (rule conjunct1)
  from ih have c2: "created_ids rs' = map (\<lambda>n. alloc b1 + int n) [0..<length (created_ids rs')]" by blast
  from ih have a2: "alloc b = alloc b1 + int (length (created_ids rs'))" by blast
  from ih have l2: "{j. held b j \<noteq> None} = live_ids {j. held b1 j \<noteq> None} cs rs'" by blast
  from ih have i2: "(\<forall>j it. held b1 j = Some it \<longrightarrow> item_id it = j)
          \<longrightarrow> (\<forall>j it. held b j = Some it \<longrightarrow> item_id it = j)" by blast
  have len: "created_ids rs = created_ids [r] @ created_ids rs'"
    by (simp only: rs created_ids_Cons[of r rs'])
  have ids: "created_ids rs = map (\<lambda>n. alloc b0 + int n) [0..<length (created_ids rs)]"
  proof (cases "created_ids [r]")
    case Nil
    with a1 have "alloc b1 = alloc b0" by simp
    with c2 Nil len show ?thesis by simp
  next
    case (Cons x xs)
    with c1 have x: "created_ids [r] = [alloc b0]" by (cases c) simp_all
    with a1 have a1': "alloc b1 = alloc b0 + 1" by simp
    have "created_ids rs = alloc b0 # created_ids rs'" by (simp add: len x)
    also have "\<dots> = alloc b0 # map (\<lambda>n. (alloc b0 + 1) + int n) [0..<length (created_ids rs')]"
      using c2 by (simp only: a1')
    also have "\<dots> = map (\<lambda>n. alloc b0 + int n) [0..<Suc (length (created_ids rs'))]"
      by (rule map_upt_shift[symmetric])
    also have "Suc (length (created_ids rs')) = length (created_ids rs)" by (simp add: len x)
    finally show ?thesis .
  qed
  have al: "alloc b = alloc b0 + int (length (created_ids rs))"
    by (simp add: a2 a1 len)
  have live: "{j. held b j \<noteq> None} = live_ids {j. held b0 j \<noteq> None} (c # cs) rs"
    by (simp only: l2 l1 rs live_ids_Cons[of _ c cs r rs'])
  have idm: "(\<forall>j it. held b0 j = Some it \<longrightarrow> item_id it = j)
          \<longrightarrow> (\<forall>j it. held b j = Some it \<longrightarrow> item_id it = j)"
    using i1 i2 by blast
  from w ids al live idm show ?case by blast
qed

lemma fresh_run_facts:
  assumes "run (fresh k) cs = (b, rs)"
  shows "wf b"
    and "created_ids rs = map (\<lambda>n. alloc (fresh k) + int n) [0..<length (created_ids rs)]"
    and "alloc b = alloc (fresh k) + int (length (created_ids rs))"
    and "{j. held b j \<noteq> None} = live_ids {} cs rs"
    and "held b j = Some it \<Longrightarrow> item_id it = j"
proof -
  note rf = run_facts[OF wf_fresh assms]
  from rf show "wf b" by (rule conjunct1)
  from rf show "created_ids rs = map (\<lambda>n. alloc (fresh k) + int n) [0..<length (created_ids rs)]"
    by blast
  from rf show "alloc b = alloc (fresh k) + int (length (created_ids rs))" by blast
  from rf have "{j. held b j \<noteq> None} = live_ids {j. held (fresh k) j \<noteq> None} cs rs"
    by blast
  then show "{j. held b j \<noteq> None} = live_ids {} cs rs" by (simp add: fresh_empty)
  from rf have "(\<forall>j it. held (fresh k) j = Some it \<longrightarrow> item_id it = j)
          \<longrightarrow> (\<forall>j it. held b j = Some it \<longrightarrow> item_id it = j)" by blast
  moreover have "\<forall>j it. held (fresh k) j = Some it \<longrightarrow> item_id it = j"
    by (simp add: fresh_empty)
  ultimately have "\<forall>j it. held b j = Some it \<longrightarrow> item_id it = j" by (rule mp)
  then show "held b j = Some it \<Longrightarrow> item_id it = j" by blast
qed

text \<open>The definitions to unfold when a call is evaluated on a concrete store.\<close>

lemmas store_defs =
  InMemoryRepository_init_def init_db_def redis_empty_def Item_of_def model_copy_update_def
  mem_get_item_def mem_create_item_def mem_update_item_def mem_delete_item_def
  sqlite_int_def bind_int_def
  sql_get_item_def sql_select_by_id_def sql_create_item_def sql_insert_def
  sql_update_item_def sql_update_def sql_delete_item_def sql_delete_def
  redis_get_item_def redis_get_def redis_create_item_def redis_get_next_id_def redis_incr_def
  redis_set_def redis_update_item_def redis_delete_item_def redis_delete_def
  model_dump_json_def item_key_def key_prefix_def next_id_key_def str_int_def Let_def

lemma distinct_created:
  "xs = map (\<lambda>n. a + int n) [0..<k] \<Longrightarrow> distinct xs"
  by (simp add: distinct_map inj_on_def)

lemma not_in_created:
  "xs = map (\<lambda>n. a + int n) [0..<length xs] \<Longrightarrow> a + int (length xs) \<notin> set xs"
proof
  assume e: "xs = map (\<lambda>n. a + int n) [0..<length xs]" and m: "a + int (length xs) \<in> set xs"
  from m have "a + int (length xs) \<in> set (map (\<lambda>n. a + int n) [0..<length xs])"
    by (subst e[symmetric])
  then show False by auto
qed

subsection \<open>Updating and listing, backend by backend\<close>

lemma laptop_pro_valid: "valid_draft laptop_pro"
  by (simp add: valid_draft_def laptop_pro_def)

text \<open>The definitions to unfold when strings are evaluated.\<close>

lemmas string_defs =
  lower_def lower_char_def sql_lower_def sql_lower_char_def char_of_def bit_Suc_0_iff

lemma item_key_1: "item_key 1 = ''item:1''"
  by (simp add: item_key_def key_prefix_def str_int_def str_nat.simps string_defs)

lemma partial_update_in_memory_and_redis:
  assumes "kind b \<noteq> SQLITE" and "get_item b i = Inr (Some cur)"
    and "update_item b i d = (b', res)"
  shows "res = Inr (Some (model_copy_update cur d)) \<and> get_item b' i = res
     \<and> (Description \<notin> model_fields_set d \<longrightarrow>
          description (model_copy_update cur d) = description cur)
     \<and> (Name \<notin> model_fields_set d \<longrightarrow> name (model_copy_update cur d) = name cur)
     \<and> (Price \<notin> model_fields_set d \<longrightarrow> price (model_copy_update cur d) = price cur)"
proof -
  from assms(2) have acc: "accepts b i" and h: "held b i = Some cur"
    by (simp_all add: get_item_Some)
  note f = update_item_present[OF acc h assms(3)]
  from f(1) assms(1) have "res = Inr (Some (model_copy_update cur d))" by blast
  moreover have "get_item b' i = res"
    using acc accepts_kind[OF f(6), of i] by (simp add: get_item_held f(3))
  ultimately show ?thesis by (simp add: model_copy_update_def)
qed

lemma full_overwrite_in_sqlite:
  assumes "get_item (SQLiteBackend db) i = Inr (Some cur)"
    and "update_item (SQLiteBackend db) i d = (b', res)"
  shows "res = Inr (Some \<lparr>name = name d, description = description d, price = price d, item_id = i\<rparr>)
     \<and> get_item b' i = res"
proof -
  from assms(1) have acc: "accepts (SQLiteBackend db) i" and h: "held (SQLiteBackend db) i = Some cur"
    by (simp_all only: get_item_Some)
  note f = update_item_present[OF acc h assms(2)]
  from f(1) have "res = Inr (Some \<lparr>name = name d, description = description d, price = price d, item_id = i\<rparr>)"
    by auto
  moreover have "get_item b' i = res"
    using acc accepts_kind[OF f(6), of i] by (simp add: get_item_held f(3))
  ultimately show ?thesis by simp
qed

lemma list_items_in_memory_and_redis:
  assumes "kind b \<noteq> SQLITE" and "wf b"
  shows "list_items b nf mp =
     filter (\<lambda>it. satisfies_name_filter nf it \<and> satisfies_min_price mp it) (stored b)"
proof (cases b)
  case (InMemoryBackend s)
  then show ?thesis by (simp add: mem_list_items_filter)
next
  case (SQLiteBackend db)
  with assms(1) show ?thesis by simp
next
  case (RedisBackend r)
  with assms(2) have "distinct (map fst (mock_data r))" by simp
  from redis_list_items_filter[OF this] RedisBackend show ?thesis by simp
qed

subsection \<open>\<open>LIKE\<close> on a filter without wildcards\<close>

lemma of_char_sql_lower_char:
  "(of_char (sql_lower_char c) :: nat) =
     (if 65 \<le> (of_char c :: nat) \<and> (of_char c :: nat) \<le> 90 then of_char c + 32 else of_char c)"
  by (simp add: sql_lower_char_def Let_def)

lemma sql_lower_char_idem: "sql_lower_char (sql_lower_char c) = sql_lower_char c"
proof -
  have "(of_char (sql_lower_char (sql_lower_char c)) :: nat) = of_char (sql_lower_char c)"
    by (simp add: of_char_sql_lower_char)
  then show ?thesis by (simp only: of_char_eq_iff)
qed

lemma sql_lower_char_percent: "sql_lower_char c = CHR ''%'' \<longleftrightarrow> c = CHR ''%''"
proof -
  have "sql_lower_char c = CHR ''%'' \<longleftrightarrow> (of_char (sql_lower_char c) :: nat) = of_char CHR ''%''"
    by (simp only: of_char_eq_iff)
  also have "\<dots> \<longleftrightarrow> (of_char c :: nat) = of_char CHR ''%''"
    by (simp add: of_char_sql_lower_char)
  also have "\<dots> \<longleftrightarrow> c = CHR ''%''" by (simp only: of_char_eq_iff)
  finally show ?thesis .
qed

lemma sql_lower_char_underscore: "sql_lower_char c = CHR ''_'' \<longleftrightarrow> c = CHR ''_''"
proof -
  have "sql_lower_char c = CHR ''_'' \<longleftrightarrow> (of_char (sql_lower_char c) :: nat) = of_char CHR ''_''"
    by (simp only: of_char_eq_iff)
  also have "\<dots> \<longleftrightarrow> (of_char c :: nat) = of_char CHR ''_''"
    by (simp add: of_char_sql_lower_char)
  also have "\<dots> \<longleftrightarrow> c = CHR ''_''" by (simp only: of_char_eq_iff)
  finally show ?thesis .
qed

lemma sql_lower_idem: "sql_lower (sql_lower s) = sql_lower s"
  by (simp add: sql_lower_def sql_lower_char_idem)

lemma sql_like_percent:
  "sql_like (CHR ''%'' # ps) s \<longleftrightarrow> (\<exists>ss. suffix ss s \<and> sql_like ps ss)"
proof (induction s)
  case Nil
  show ?case by simp
next
  case (Cons c cs)
  have "sql_like (CHR ''%'' # ps) (c # cs) \<longleftrightarrow>
      sql_like ps (c # cs) \<or> (\<exists>ss. suffix ss cs \<and> sql_like ps ss)"
    using Cons.IH by simp
  also have "\<dots> \<longleftrightarrow> (\<exists>ss. suffix ss (c # cs) \<and> sql_like ps ss)"
    by (auto simp: suffix_Cons)
  finally show ?case .
qed

lemma sql_like_only_percent: "sql_like ''%'' s"
  using sql_like_percent[of "[]" s] by (auto intro: exI[of _ "[]"])

lemma sql_like_plain:
  assumes "CHR ''%'' \<notin> set p" and "CHR ''_'' \<notin> set p"
  shows "sql_like (p @ q) s \<longleftrightarrow>
     (\<exists>s1 s2. s = s1 @ s2 \<and> map sql_lower_char s1 = map sql_lower_char p \<and> sql_like q s2)"
  using assms
proof (induction p arbitrary: s)
  case Nil
  show ?case by simp
next
  case (Cons a p)
  then have a: "a \<noteq> CHR ''%''" "a \<noteq> CHR ''_''"
    and p: "CHR ''%'' \<notin> set p" "CHR ''_'' \<notin> set p" by auto
  show ?case
  proof (cases s)
    case Nil
    with a show ?thesis by simp
  next
    case (Cons c cs)
    have "sql_like ((a # p) @ q) (c # cs) \<longleftrightarrow>
        sql_lower_char a = sql_lower_char c \<and> sql_like (p @ q) cs"
      using a by simp
    also have "\<dots> \<longleftrightarrow> sql_lower_char a = sql_lower_char c \<and>
        (\<exists>s1 s2. cs = s1 @ s2 \<and> map sql_lower_char s1 = map sql_lower_char p \<and> sql_like q s2)"
      using Cons.IH[OF p] by simp
    also have "\<dots> \<longleftrightarrow> (\<exists>s1 s2. c # cs = s1 @ s2
         \<and> map sql_lower_char s1 = map sql_lower_char (a # p) \<and> sql_like q s2)"
    proof
      assume "sql_lower_char a = sql_lower_char c \<and>
        (\<exists>s1 s2. cs = s1 @ s2 \<and> map sql_lower_char s1 = map sql_lower_char p \<and> sql_like q s2)"
      then obtain s1 s2 where "sql_lower_char a = sql_lower_char c" "cs = s1 @ s2"
        "map sql_lower_char s1 = map sql_lower_char p" "sql_like q s2" by blast
      then have "c # cs = (c # s1) @ s2 \<and> map sql_lower_char (c # s1) = map sql_lower_char (a # p)
          \<and> sql_like q s2" by simp
      then show "\<exists>s1 s2. c # cs = s1 @ s2
         \<and> map sql_lower_char s1 = map sql_lower_char (a # p) \<and> sql_like q s2" by blast
    next
      assume "\<exists>s1 s2. c # cs = s1 @ s2
         \<and> map sql_lower_char s1 = map sql_lower_char (a # p) \<and> sql_like q s2"
      then obtain s1 s2 where e: "c # cs = s1 @ s2"
        and m: "map sql_lower_char s1 = map sql_lower_char (a # p)" and l: "sql_like q s2" by blast
      from m obtain x s1' where s1: "s1 = x # s1'" by (cases s1) auto
      with e m have "x = c" "cs = s1' @ s2" "sql_lower_char a = sql_lower_char c"
        "map sql_lower_char s1' = map sql_lower_char p" by auto
      with l show "sql_lower_char a = sql_lower_char c \<and>
        (\<exists>s1 s2. cs = s1 @ s2 \<and> map sql_lower_char s1 = map sql_lower_char p \<and> sql_like q s2)"
        by blast
    qed
    finally show ?thesis by (simp only: Cons)
  qed
qed

lemma sql_like_contains:
  assumes "CHR ''%'' \<notin> set f" and "CHR ''_'' \<notin> set f"
  shows "sql_like (sql_lower (''%'' @ f @ ''%'')) (sql_lower n) \<longleftrightarrow> sublist (sql_lower f) (sql_lower n)"
proof -
  have w: "CHR ''%'' \<notin> set (sql_lower f)" "CHR ''_'' \<notin> set (sql_lower f)"
  proof -
    show "CHR ''%'' \<notin> set (sql_lower f)"
    proof
      assume "CHR ''%'' \<in> set (sql_lower f)"
      then obtain x where "x \<in> set f" "sql_lower_char x = CHR ''%''" by (auto simp: sql_lower_def)
      with assms(1) show False by (simp add: sql_lower_char_percent)
    qed
    show "CHR ''_'' \<notin> set (sql_lower f)"
    proof
      assume "CHR ''_'' \<in> set (sql_lower f)"
      then obtain x where "x \<in> set f" "sql_lower_char x = CHR ''_''" by (auto simp: sql_lower_def)
      with assms(2) show False by (simp add: sql_lower_char_underscore)
    qed
  qed
  have pat: "sql_lower (''%'' @ f @ ''%'') = CHR ''%'' # (sql_lower f @ ''%'')"
    by (simp add: sql_lower_def sql_lower_char_percent)
  have "sql_like (sql_lower (''%'' @ f @ ''%'')) (sql_lower n) \<longleftrightarrow>
      (\<exists>ss. suffix ss (sql_lower n) \<and> sql_like (sql_lower f @ ''%'') ss)"
    by (simp only: pat sql_like_percent)
  also have "\<dots> \<longleftrightarrow> (\<exists>ss. suffix ss (sql_lower n) \<and>
      (\<exists>s1 s2. ss = s1 @ s2 \<and> map sql_lower_char s1 = sql_lower f))"
    by (simp add: sql_like_plain[OF w] sql_like_only_percent sql_lower_def[symmetric] sql_lower_idem)
  also have "\<dots> \<longleftrightarrow> sublist (sql_lower f) (sql_lower n)"
  proof
    assume "\<exists>ss. suffix ss (sql_lower n) \<and> (\<exists>s1 s2. ss = s1 @ s2 \<and> map sql_lower_char s1 = sql_lower f)"
    then obtain pre s1 s2 where n: "sql_lower n = pre @ s1 @ s2" and m: "map sql_lower_char s1 = sql_lower f"
      by (auto simp: suffix_def)
    have "map sql_lower_char (sql_lower n) = sql_lower n" using sql_lower_idem[of n] by (simp add: sql_lower_def)
    with n have "map sql_lower_char pre @ map sql_lower_char s1 @ map sql_lower_char s2 = pre @ s1 @ s2"
      by simp
    then have "map sql_lower_char s1 = s1" by simp
    with m n show "sublist (sql_lower f) (sql_lower n)" by (auto simp: sublist_def)
  next
    assume "sublist (sql_lower f) (sql_lower n)"
    then obtain pre s2 where n: "sql_lower n = pre @ sql_lower f @ s2" by (auto simp: sublist_def)
    have "suffix (sql_lower f @ s2) (sql_lower n) \<and> map sql_lower_char (sql_lower f) = sql_lower f"
      using n sql_lower_idem[of f] by (simp add: suffix_def sql_lower_def)
    then show "\<exists>ss. suffix ss (sql_lower n) \<and> (\<exists>s1 s2. ss = s1 @ s2 \<and> map sql_lower_char s1 = sql_lower f)"
      by blast
  qed
  finally show ?thesis .
qed

lemma lower_char_ascii: "(of_char c :: nat) < 128 \<Longrightarrow> lower_char c = sql_lower_char c"
  by (simp add: lower_char_def sql_lower_char_def Let_def)

lemma lower_ascii: "ascii s \<Longrightarrow> lower s = sql_lower s"
  by (simp add: ascii_def lower_def sql_lower_def lower_char_ascii)

lemma sql_name_ok_without_wildcards:
  assumes "CHR ''%'' \<notin> set f" and "CHR ''_'' \<notin> set f"
    and "ascii f" and "ascii (fst (snd r))"
  shows "sql_name_ok (Some f) r = satisfies_name_filter (Some f) (Item_of_row r)"
proof -
  obtain i n d p where r: "r = (i, n, d, p)" by (cases r)
  with assms(4) have n: "ascii n" by simp
  show ?thesis
  proof (cases "f = []")
    case True
    then show ?thesis by (simp add: sql_name_ok_def satisfies_name_filter_def r lower_def)
  next
    case False
    then show ?thesis using sql_like_contains[OF assms(1,2), of n]
      by (simp add: sql_name_ok_def satisfies_name_filter_def r lower_ascii[OF assms(3)]
          lower_ascii[OF n])
  qed
qed

text \<open>
  Beyond ASCII the two foldings part: \<open>str.lower\<close> takes the Latin-1 capital E with
  acute accent (code point 201) to its small letter (233), \<open>LOWER\<close> leaves it.
\<close>

lemma lower_beyond_ascii:
  "lower [char_of (201 :: nat)] = [char_of (233 :: nat)]"
  "sql_lower [char_of (201 :: nat)] = [char_of (201 :: nat)]"
  by (simp_all add: lower_def lower_char_def sql_lower_def sql_lower_char_def)

lemma list_items_sqlite_without_wildcards:
  assumes "case nf of None \<Rightarrow> True
           | Some f \<Rightarrow> CHR ''%'' \<notin> set f \<and> CHR ''_'' \<notin> set f \<and> ascii f"
    and "\<forall>r \<in> set (table_items db). ascii (fst (snd r))"
  shows "mset (list_items (SQLiteBackend db) nf mp) =
     mset (filter (\<lambda>it. satisfies_name_filter nf it \<and> satisfies_min_price mp it)
             (stored (SQLiteBackend db)))"
proof -
  have "sql_name_ok nf r = satisfies_name_filter nf (Item_of_row r)"
    if "r \<in> set (table_items db)" for r
    using assms that by (cases nf) (simp_all add: sql_name_ok_without_wildcards)
  then have "filter (\<lambda>r. sql_name_ok nf r \<and> satisfies_min_price mp (Item_of_row r)) (table_items db)
      = filter (\<lambda>r. satisfies_name_filter nf (Item_of_row r) \<and> satisfies_min_price mp (Item_of_row r))
          (table_items db)"
    by (auto intro: filter_cong)
  then show ?thesis
    by (simp add: sql_list_items_filter filter_map comp_def)
qed

subsection \<open>Ids that are not in the store\<close>

text \<open>
  Within the ids that a backend accepts, the calls on an id that is not there behave
  alike in the three backends; an id that the relational backend's driver refuses makes
  each of its calls by id raise, and the store stays as it is.
\<close>

lemma accepts_run:
  assumes "run (fresh k) cs = (b, rs)"
  shows "accepts b i \<longleftrightarrow> k \<noteq> SQLITE \<or> sqlite_int i"
proof -
  from run_kind[OF assms] have "kind b = kind (fresh k)" .
  then show ?thesis by (cases b; cases k) simp_all
qed

lemma update_absent_within_range:
  "get_item b i = Inr None \<Longrightarrow> update_item b i d = (b, Inr None)"
  by (simp add: get_item_None update_item_absent)

lemma calls_raise_alike:
  assumes "get_item b i = Inl e"
  shows "e = OverflowError" and "kind b = SQLITE" and "\<not> sqlite_int i"
    and "update_item b i d = (b, Inl e)" and "delete_item b i = (b, Inl e)"
proof -
  from assms have na: "\<not> accepts b i" and e: "e = OverflowError"
    by (simp_all add: get_item_raises)
  show "e = OverflowError" by (rule e)
  from na show "kind b = SQLITE" and "\<not> sqlite_int i" by (cases b; simp)+
  from na show "update_item b i d = (b, Inl e)" by (simp add: e update_item_raises)
  from na show "delete_item b i = (b, Inl e)" by (simp add: e delete_item_raises)
qed

lemma delete_item_absent:
  "accepts b i \<Longrightarrow> held b i = None \<Longrightarrow> delete_item b i = (b, Inr False)"
proof (cases b)
  case (InMemoryBackend s)
  assume "accepts b i" "held b i = None"
  with InMemoryBackend show ?thesis by (simp add: mem_delete_item_def mem_get_absent)
next
  case (SQLiteBackend db)
  assume "accepts b i" and h: "held b i = None"
  with SQLiteBackend have a: "sqlite_int i" and abs: "i \<notin> fst ` set (table_items db)"
    by (simp_all add: sql_held_absent)
  have "filter (\<lambda>r. fst r \<noteq> i) (table_items db) = table_items db"
    using abs by (induction "table_items db") (auto simp: filter_id_conv)
  with SQLiteBackend a show ?thesis
    by (simp add: sql_delete_item_def sql_delete_def bind_int_def filter_fst_absent[OF abs])
next
  case (RedisBackend r)
  assume "accepts b i" "held b i = None"
  with RedisBackend show ?thesis
    by (simp add: redis_delete_item_def redis_delete_def redis_get_absent)
qed

lemma delete_within_range:
  assumes "accepts b i" and "delete_item b i = (b', res)"
  shows "res = Inr (get_item b i \<noteq> Inr None)" and "get_item b' i = Inr None"
    and "delete_item b' i = (b', Inr False)"
proof -
  note f = delete_item_facts[OF assms]
  from assms(1) accepts_kind[OF f(6), of i] have acc: "accepts b' i" by simp
  from f(1)[of i] have h: "held b' i = None" by simp
  show "res = Inr (get_item b i \<noteq> Inr None)" using assms(1) by (simp add: f(5) get_item_held)
  show "get_item b' i = Inr None" using acc h by (simp add: get_item_held)
  show "delete_item b' i = (b', Inr False)" by (rule delete_item_absent[OF acc h])
qed

lemma create_then_get_within_range:
  assumes "run (fresh k) cs = (b, rs)" and "create_item b d = (b', it)"
  shows "name it = name d \<and> description it = description d \<and> price it = price d"
    and "item_id it \<notin> set (created_ids rs)"
    and "held b (item_id it) = None"
    and "accepts b (item_id it) \<Longrightarrow> get_item b' (item_id it) = Inr (Some it)"
    and "accepts b j \<Longrightarrow> j \<notin> live_ids {} cs rs \<Longrightarrow> get_item b j = Inr None"
proof -
  note h = fresh_run_facts[OF assms(1)]
  note f = create_item_facts[OF assms(2)]
  have id: "item_id it = alloc b" by (simp add: f(1) Item_of_def)
  show "name it = name d \<and> description it = description d \<and> price it = price d"
    by (simp add: f(1) Item_of_def)
  show "item_id it \<notin> set (created_ids rs)"
    unfolding id h(3) by (rule not_in_created[OF h(2)])
  show "held b (item_id it) = None"
  proof (rule ccontr)
    assume "held b (item_id it) \<noteq> None"
    from wf_below[OF h(1) this] id show False by simp
  qed
  have k: "kind b' = kind b" using assms(2) by (cases b) (auto split: prod.splits)
  show "get_item b' (item_id it) = Inr (Some it)" if "accepts b (item_id it)"
    using that accepts_kind[OF k, of "item_id it"] by (simp add: get_item_held id f(3))
  show "get_item b j = Inr None" if "accepts b j" and "j \<notin> live_ids {} cs rs"
    using that h(4) by (auto simp: get_item_held)
qed

section \<open>Properties of the contract\<close>

subsection \<open>Listing with an empty name filter\<close>

text \<open>
  C10. In every backend, \<open>list\<close> with the empty string as name filter puts no constraint
  on names: the result is the one obtained with no name filter at all, whatever the
  minimum price.
\<close>

theorem empty_name_filter_is_no_filter:
  "list_items b (Some []) mp = list_items b None mp"
proof (cases b)
  case (InMemoryBackend s)
  then show ?thesis by (simp add: mem_list_items_def filter_step_empty_name)
next
  case (SQLiteBackend db)
  then show ?thesis by (simp add: sql_list_items_def truthy_str_def)
next
  case (RedisBackend r)
  have "redis_list_step (Some []) mp = redis_list_step None mp"
    by (simp add: fun_eq_iff redis_list_step_def filter_step_empty_name split: option.splits)
  with RedisBackend show ?thesis by (simp add: redis_list_items_def Let_def)
qed

subsection \<open>Order of the relational listing\<close>

text \<open>
  C8. For every table and every combination of filters, the relational backend lists
  its result in ascending order of id (\<open>ORDER BY id\<close>). Nothing is claimed of the order
  of the other two backends.
\<close>

theorem sqlite_list_sorted_by_id:
  "sorted (map item_id (list_items (SQLiteBackend db) nf mp))"
proof -
  have "map item_id (sql_list_items db nf mp) =
      map fst (sort_key fst (filter
        (\<lambda>r. sql_name_ok nf r \<and> satisfies_min_price mp (Item_of_row r)) (table_items db)))"
    by (simp add: sql_list_items_filter comp_def item_id_Item_of_row)
  then show ?thesis by simp
qed

subsection \<open>Selecting the backend\<close>

text \<open>
  C9. When the configured storage type is none of \<open>in_memory\<close>, \<open>sqlite\<close>, \<open>redis\<close>,
  \<open>get_repository\<close> raises and builds no repository; for each of the three it yields the
  matching implementation (for \<open>redis\<close>, on the shared client, made on first use).
\<close>

theorem get_repository_selection:
  "(STORAGE_TYPE st \<notin> {''in_memory'', ''sqlite'', ''redis''} \<longrightarrow>
      get_repository st g = Inl (ValueError (STORAGE_TYPE st)))
   \<and> (STORAGE_TYPE st = ''in_memory'' \<longrightarrow>
      get_repository st g = Inr (New_InMemoryRepository InMemoryRepository_init, g))
   \<and> (STORAGE_TYPE st = ''sqlite'' \<longrightarrow> get_repository st g = Inr (New_SQLiteRepository, g))
   \<and> (STORAGE_TYPE st = ''redis'' \<longrightarrow>
      (\<exists>c. get_repository st g = Inr (New_RedisRepository c, Some c)
           \<and> (g = None \<longrightarrow> c = from_url (REDIS_URL st)) \<and> (g \<noteq> None \<longrightarrow> g = Some c)))"
  by (cases g) (simp_all add: get_repository_def Let_def)

theorem get_repository_selection_witness:
  "get_repository \<lparr>STORAGE_TYPE = ''postgres'', REDIS_URL = None, SQLITE_DATABASE_URL = ''x''\<rparr> None
     = Inl (ValueError ''postgres'')
   \<and> get_repository \<lparr>STORAGE_TYPE = ''in_memory'', REDIS_URL = None, SQLITE_DATABASE_URL = ''x''\<rparr> None
     = Inr (New_InMemoryRepository InMemoryRepository_init, None)
   \<and> get_repository \<lparr>STORAGE_TYPE = ''sqlite'', REDIS_URL = None, SQLITE_DATABASE_URL = ''x''\<rparr> None
     = Inr (New_SQLiteRepository, None)
   \<and> get_repository \<lparr>STORAGE_TYPE = ''redis'', REDIS_URL = Some ''u'', SQLITE_DATABASE_URL = ''x''\<rparr> None
     = Inr (New_RedisRepository (from_url (Some ''u'')), Some (from_url (Some ''u'')))"
  using
    get_repository_selection
      [of "\<lparr>STORAGE_TYPE = ''postgres'', REDIS_URL = None, SQLITE_DATABASE_URL = ''x''\<rparr>" None]
    get_repository_selection
      [of "\<lparr>STORAGE_TYPE = ''in_memory'', REDIS_URL = None, SQLITE_DATABASE_URL = ''x''\<rparr>" None]
    get_repository_selection
      [of "\<lparr>STORAGE_TYPE = ''sqlite'', REDIS_URL = None, SQLITE_DATABASE_URL = ''x''\<rparr>" None]
    get_repository_selection
      [of "\<lparr>STORAGE_TYPE = ''redis'', REDIS_URL = Some ''u'', SQLITE_DATABASE_URL = ''x''\<rparr>" None]
  by simp

subsection \<open>Updating an id that is not there\<close>

text \<open>
  C5. The contract asks that \<open>update\<close> on an id that is not in the store return the
  not-found signal \<open>None\<close> and change nothing, in every backend. The in-memory and the
  key-value backend do so for every id. The relational backend does so for the ids
  that fit SQLite's \<open>INTEGER\<close> (\<open>update_absent_within_range\<close>); for any other id its
  \<open>UPDATE\<close> is never run, because the driver raises \<open>OverflowError\<close> on the parameter
  (\<open>calls_raise_alike\<close>). On the store holding the one item 1, whose ids do not include
  \<open>2\<^sup>6\<^sup>3\<close>, \<open>update\<close> of \<open>2\<^sup>6\<^sup>3\<close> raises in the relational backend and returns \<open>None\<close> in the
  other two; the store is unchanged in all three.
\<close>

theorem sqlite_update_raises_on_absent_id:
  "2 ^ 63 \<notin> item_id ` set (stored (SQLiteBackend one_row_db))
   \<and> update_item (SQLiteBackend one_row_db) (2 ^ 63) laptop_pro
       = (SQLiteBackend one_row_db, Inl OverflowError)
   \<and> 2 ^ 63 \<notin> item_id ` set (stored (InMemoryBackend laptop_shelf))
   \<and> update_item (InMemoryBackend laptop_shelf) (2 ^ 63) laptop_pro
       = (InMemoryBackend laptop_shelf, Inr None)
   \<and> 2 ^ 63 \<notin> item_id ` set (stored (RedisBackend laptop_keys))
   \<and> update_item (RedisBackend laptop_keys) (2 ^ 63) laptop_pro
       = (RedisBackend laptop_keys, Inr None)"
proof -
  have s: "2 ^ 63 \<notin> item_id ` set (stored (SQLiteBackend one_row_db))
     \<and> update_item (SQLiteBackend one_row_db) (2 ^ 63) laptop_pro
       = (SQLiteBackend one_row_db, Inl OverflowError)"
    by (simp add: one_row_db_def sql_update_item_def sql_update_def bind_int_def sqlite_int_def)
  have m: "2 ^ 63 \<notin> item_id ` set (stored (InMemoryBackend laptop_shelf))
     \<and> update_item (InMemoryBackend laptop_shelf) (2 ^ 63) laptop_pro
       = (InMemoryBackend laptop_shelf, Inr None)"
    by (simp add: laptop_shelf_def mem_update_item_def)
  have k: "redis_get_item laptop_keys (2 ^ 63) = None"
    by (simp add: redis_get_absent laptop_keys_def item_key_1[symmetric])
  have r: "2 ^ 63 \<notin> item_id ` set (stored (RedisBackend laptop_keys))"
    by (auto simp: laptop_keys_def)
  have u: "update_item (RedisBackend laptop_keys) (2 ^ 63) laptop_pro
       = (RedisBackend laptop_keys, Inr None)"
    using redis_update_absent[OF k, of laptop_pro] by simp
  from s m r u show ?thesis by blast
qed

subsection \<open>Deleting\<close>

text \<open>
  C6. The contract asks that \<open>delete\<close> return true exactly when the id was in the store,
  so false on an id that is not there, in every backend and for every id. Within the
  ids that a backend accepts this holds, and \<open>get\<close> afterwards finds nothing and a second
  \<open>delete\<close> returns false (\<open>delete_within_range\<close>). The relational backend accepts only
  the ids that fit SQLite's \<open>INTEGER\<close>: on the store holding the one item 1, \<open>delete\<close> of
  \<open>2\<^sup>6\<^sup>3\<close>, which is not in the store, raises \<open>OverflowError\<close> there and returns \<open>False\<close> in
  the other two backends.
\<close>

theorem sqlite_delete_raises_on_absent_id:
  "2 ^ 63 \<notin> item_id ` set (stored (SQLiteBackend one_row_db))
   \<and> delete_item (SQLiteBackend one_row_db) (2 ^ 63)
       = (SQLiteBackend one_row_db, Inl OverflowError)
   \<and> 2 ^ 63 \<notin> item_id ` set (stored (InMemoryBackend laptop_shelf))
   \<and> delete_item (InMemoryBackend laptop_shelf) (2 ^ 63)
       = (InMemoryBackend laptop_shelf, Inr False)
   \<and> 2 ^ 63 \<notin> item_id ` set (stored (RedisBackend laptop_keys))
   \<and> delete_item (RedisBackend laptop_keys) (2 ^ 63)
       = (RedisBackend laptop_keys, Inr False)"
proof -
  have s: "2 ^ 63 \<notin> item_id ` set (stored (SQLiteBackend one_row_db))
     \<and> delete_item (SQLiteBackend one_row_db) (2 ^ 63)
       = (SQLiteBackend one_row_db, Inl OverflowError)"
    by (simp add: one_row_db_def sql_delete_item_def sql_delete_def bind_int_def sqlite_int_def)
  have m: "2 ^ 63 \<notin> item_id ` set (stored (InMemoryBackend laptop_shelf))
     \<and> delete_item (InMemoryBackend laptop_shelf) (2 ^ 63)
       = (InMemoryBackend laptop_shelf, Inr False)"
    by (simp add: laptop_shelf_def mem_delete_item_def)
  have k: "held (RedisBackend laptop_keys) (2 ^ 63) = None"
    by (simp add: redis_get_absent laptop_keys_def item_key_1[symmetric])
  have r: "2 ^ 63 \<notin> item_id ` set (stored (RedisBackend laptop_keys))"
    by (auto simp: laptop_keys_def)
  have d: "delete_item (RedisBackend laptop_keys) (2 ^ 63)
       = (RedisBackend laptop_keys, Inr False)"
    by (rule delete_item_absent[OF _ k]) simp
  from s m r d show ?thesis by blast
qed

subsection \<open>The minimum price\<close>

text \<open>
  C2. In every backend, a minimum price of exactly zero puts no constraint on prices:
  the listing is the one obtained with no minimum price, so with no name filter every
  stored item is listed. A minimum price above zero keeps exactly the items that cost at
  least as much: of the items passing the name filter, and with no name filter of the
  stored items.
\<close>

theorem min_price_zero_or_positive:
  "list_items b nf (Some 0) = list_items b nf None
   \<and> (wf b \<longrightarrow> mset (list_items b None (Some 0)) = mset (stored b))
   \<and> (0 < m \<longrightarrow>
        list_items b nf (Some m) = filter (\<lambda>it. m \<le> price it) (list_items b nf None))
   \<and> (0 < m \<longrightarrow> wf b \<longrightarrow>
        mset (list_items b None (Some m)) = mset (filter (\<lambda>it. m \<le> price it) (stored b)))"
proof -
  have zero: "satisfies_min_price (Some 0) = (\<lambda>it. True)"
    by (simp add: fun_eq_iff satisfies_min_price_def)
  have pos: "satisfies_min_price (Some m) = (\<lambda>it. m \<le> price it)" if "0 < m"
    using that by (simp add: fun_eq_iff satisfies_min_price_def)
  have a: "list_items b nf (Some 0) = list_items b nf None" for nf
    using list_items_price[of b nf "Some 0"] by (simp add: zero)
  have c: "list_items b nf (Some m) = filter (\<lambda>it. m \<le> price it) (list_items b nf None)"
    if "0 < m" for nf
    using list_items_price[of b nf "Some m"] by (simp add: pos[OF that])
  have d: "mset (list_items b None (Some m)) = mset (filter (\<lambda>it. m \<le> price it) (stored b))"
    if "0 < m" "wf b"
    using c[OF that(1), of None] list_items_all[OF that(2)] by simp
  show ?thesis using a c d list_items_all by simp
qed


theorem min_price_zero_or_positive_witness:
  "(0::real) < 25 \<and> wf (InMemoryBackend fruit_shelf)
   \<and> list_items (InMemoryBackend fruit_shelf) None (Some 0)
       = list_items (InMemoryBackend fruit_shelf) None None
   \<and> mset (list_items (InMemoryBackend fruit_shelf) None (Some 0))
       = mset (stored (InMemoryBackend fruit_shelf))
   \<and> list_items (InMemoryBackend fruit_shelf) None (Some 25)
       = filter (\<lambda>it. 25 \<le> price it) (list_items (InMemoryBackend fruit_shelf) None None)
   \<and> mset (list_items (InMemoryBackend fruit_shelf) None (Some 25))
       = mset (filter (\<lambda>it. 25 \<le> price it) (stored (InMemoryBackend fruit_shelf)))
   \<and> list_items (InMemoryBackend fruit_shelf) None (Some 25)
       = [\<lparr>name = ''Pineapple'', description = None, price = 30, item_id = 3\<rparr>]"
proof -
  have w: "wf (InMemoryBackend fruit_shelf)" by (simp add: fruit_shelf_def)
  have e: "list_items (InMemoryBackend fruit_shelf) None (Some 25)
       = [\<lparr>name = ''Pineapple'', description = None, price = 30, item_id = 3\<rparr>]"
    by (simp add: fruit_shelf_def mem_list_items_def filter_step_def truthy_str_def truthy_float_def)
  have p: "(0::real) < 25" by simp
  note T = min_price_zero_or_positive[of "InMemoryBackend fruit_shelf" None 25]
  from T p w e show ?thesis by blast
qed

subsection \<open>Creating and reading back\<close>

text \<open>
  C7. The contract asks that \<open>create\<close> return the draft's fields under an id not seen
  before, that \<open>get\<close> on that id return the created item, and that \<open>get\<close> on any id never
  created, or deleted since, signal not-found, in every backend. The first two hold in
  every backend at any point of a history, and the third for every id that the backend
  accepts (\<open>create_then_get_within_range\<close>). The relational backend accepts only the ids
  that fit SQLite's \<open>INTEGER\<close>: in the history that creates one item and then asks for
  the id \<open>2\<^sup>6\<^sup>3\<close>, which was never created, \<open>get\<close> raises \<open>OverflowError\<close> there and returns
  \<open>None\<close> in the other two backends.
\<close>

theorem sqlite_get_raises_on_id_never_created:
  "run (fresh SQLITE) [Create laptop, Get (2 ^ 63)]
     = (SQLiteBackend one_row_db,
        [Created \<lparr>name = ''Laptop'', description = Some ''Fast'', price = 1200.5, item_id = 1\<rparr>,
         Raised OverflowError])
   \<and> run (fresh IN_MEMORY) [Create laptop, Get (2 ^ 63)]
     = (InMemoryBackend laptop_shelf,
        [Created \<lparr>name = ''Laptop'', description = Some ''Fast'', price = 1200.5, item_id = 1\<rparr>,
         Got None])
   \<and> run (fresh REDIS) [Create laptop, Get (2 ^ 63)]
     = (RedisBackend laptop_keys,
        [Created \<lparr>name = ''Laptop'', description = Some ''Fast'', price = 1200.5, item_id = 1\<rparr>,
         Got None])"
proof -
  have s: "run (fresh SQLITE) [Create laptop, Get (2 ^ 63)]
     = (SQLiteBackend one_row_db,
        [Created \<lparr>name = ''Laptop'', description = Some ''Fast'', price = 1200.5, item_id = 1\<rparr>,
         Raised OverflowError])"
    by (simp add: store_defs laptop_def one_row_db_def)
  have m: "run (fresh IN_MEMORY) [Create laptop, Get (2 ^ 63)]
     = (InMemoryBackend laptop_shelf,
        [Created \<lparr>name = ''Laptop'', description = Some ''Fast'', price = 1200.5, item_id = 1\<rparr>,
         Got None])"
    by (simp add: store_defs laptop_def laptop_shelf_def)
  have c: "redis_create_item redis_empty laptop
     = (laptop_keys,
        \<lparr>name = ''Laptop'', description = Some ''Fast'', price = 1200.5, item_id = 1\<rparr>)"
    by (simp add: redis_empty_def redis_create_item_def redis_get_next_id_def redis_incr_def
        redis_set_def model_dump_json_def Item_of_def laptop_def laptop_keys_def item_key_1
        next_id_key_def Let_def)
  have k: "redis_get_item laptop_keys (2 ^ 63) = None"
    by (simp add: redis_get_absent laptop_keys_def item_key_1[symmetric])
  have r: "run (fresh REDIS) [Create laptop, Get (2 ^ 63)]
     = (RedisBackend laptop_keys,
        [Created \<lparr>name = ''Laptop'', description = Some ''Fast'', price = 1200.5, item_id = 1\<rparr>,
         Got None])"
    using k by (simp add: c)
  from s m r show ?thesis by blast
qed

subsection \<open>Identifiers\<close>

text \<open>
  C3. In every backend, at any point of the life of an instance: the ids that \<open>create\<close>
  has handed out in the history are pairwise distinct, deletions in between or not; an
  item found under an id carries that id, and an update returns and stores an item with
  the same id; no call lowers the allocation counter (\<open>next_id\<close> in memory, the
  \<open>INCR\<close> counter in the key-value store, the AUTOINCREMENT sequence in the relational
  one), a delete leaves it as it is, and a create hands out its value, which no earlier
  create has handed out, and advances it by one.
\<close>

theorem ids_assigned_once_never_reused:
  assumes "run (fresh k) cs = (b, rs)"
  shows "distinct (created_ids rs)
     \<and> (get_item b i = Inr (Some cur) \<longrightarrow> item_id cur = i)
     \<and> (get_item b i = Inr (Some cur) \<and> update_item b i d = (bu, res) \<longrightarrow>
          (\<exists>it'. res = Inr (Some it') \<and> item_id it' = item_id cur
                \<and> get_item bu i = Inr (Some it')))
     \<and> (perform b c = (bp, r) \<longrightarrow>
          alloc b \<le> alloc bp \<and> ((\<exists>j. c = Delete j) \<longrightarrow> alloc bp = alloc b))
     \<and> (create_item b d' = (bc, it) \<longrightarrow>
          item_id it = alloc b \<and> item_id it \<notin> set (created_ids rs) \<and> alloc bc = alloc b + 1)"
proof -
  note h = fresh_run_facts[OF assms]
  have one: "distinct (created_ids rs)" by (rule distinct_created[OF h(2)])
  have two: "get_item b i = Inr (Some cur) \<longrightarrow> item_id cur = i"
    using h(5) by (simp add: get_item_Some)
  have three: "get_item b i = Inr (Some cur) \<and> update_item b i d = (bu, res) \<longrightarrow>
          (\<exists>it'. res = Inr (Some it') \<and> item_id it' = item_id cur
                \<and> get_item bu i = Inr (Some it'))"
  proof
    assume a: "get_item b i = Inr (Some cur) \<and> update_item b i d = (bu, res)"
    then have acc: "accepts b i" and g: "held b i = Some cur"
      and u: "update_item b i d = (bu, res)" by (simp_all add: get_item_Some)
    note f = update_item_present[OF acc g u]
    from f(1) obtain it' where res: "res = Inr (Some it')" and idk: "item_id cur = i \<longrightarrow> item_id it' = i"
      by blast
    from h(5)[OF g] idk have "item_id it' = item_id cur" by simp
    moreover have "get_item bu i = Inr (Some it')"
      using acc accepts_kind[OF f(6), of i] f(3) by (simp add: get_item_held res)
    ultimately show "\<exists>it'. res = Inr (Some it') \<and> item_id it' = item_id cur
                \<and> get_item bu i = Inr (Some it')"
      using res by blast
  qed
  have four: "perform b c = (bp, r) \<longrightarrow>
          alloc b \<le> alloc bp \<and> ((\<exists>j. c = Delete j) \<longrightarrow> alloc bp = alloc b)"
  proof
    assume p: "perform b c = (bp, r)"
    note pf = perform_facts[OF h(1) p]
    from pf have cr: "created_ids [r] = (case c of Create d \<Rightarrow> [alloc b] | _ \<Rightarrow> [])" by blast
    from pf have al: "alloc bp = alloc b + int (length (created_ids [r]))" by blast
    from al have "alloc b \<le> alloc bp" by simp
    moreover have "(\<exists>j. c = Delete j) \<longrightarrow> alloc bp = alloc b"
      using cr al by auto
    ultimately show "alloc b \<le> alloc bp \<and> ((\<exists>j. c = Delete j) \<longrightarrow> alloc bp = alloc b)" by blast
  qed
  have five: "create_item b d' = (bc, it) \<longrightarrow>
          item_id it = alloc b \<and> item_id it \<notin> set (created_ids rs) \<and> alloc bc = alloc b + 1"
  proof
    assume c: "create_item b d' = (bc, it)"
    note f = create_item_facts[OF c]
    have id: "item_id it = alloc b" by (simp add: f(1) Item_of_def)
    have "item_id it \<notin> set (created_ids rs)"
      unfolding id h(3) by (rule not_in_created[OF h(2)])
    with id f(2) show "item_id it = alloc b \<and> item_id it \<notin> set (created_ids rs) \<and> alloc bc = alloc b + 1"
      by blast
  qed
  from one two three four five show ?thesis by blast
qed

theorem ids_assigned_once_never_reused_witness:
  "run (fresh SQLITE) [Create laptop, Delete 1, Create laptop_pro]
     = (SQLiteBackend \<lparr>table_items = [(2, ''Laptop Pro'', None, 1200.5)], sqlite_sequence = 2\<rparr>,
        [Created \<lparr>name = ''Laptop'', description = Some ''Fast'', price = 1200.5, item_id = 1\<rparr>,
         Deleted True,
         Created \<lparr>name = ''Laptop Pro'', description = None, price = 1200.5, item_id = 2\<rparr>])
   \<and> distinct [1, 2 :: int]
   \<and> get_item (SQLiteBackend \<lparr>table_items = [(2, ''Laptop Pro'', None, 1200.5)], sqlite_sequence = 2\<rparr>) 2
       = Inr (Some \<lparr>name = ''Laptop Pro'', description = None, price = 1200.5, item_id = 2\<rparr>)
   \<and> update_item (SQLiteBackend \<lparr>table_items = [(2, ''Laptop Pro'', None, 1200.5)], sqlite_sequence = 2\<rparr>) 2 laptop
       = (SQLiteBackend \<lparr>table_items = [(2, ''Laptop'', Some ''Fast'', 1200.5)], sqlite_sequence = 2\<rparr>,
          Inr (Some \<lparr>name = ''Laptop'', description = Some ''Fast'', price = 1200.5, item_id = 2\<rparr>))
   \<and> perform (SQLiteBackend \<lparr>table_items = [(2, ''Laptop Pro'', None, 1200.5)], sqlite_sequence = 2\<rparr>) (Delete 2)
       = (SQLiteBackend \<lparr>table_items = [], sqlite_sequence = 2\<rparr>, Deleted True)
   \<and> alloc (SQLiteBackend \<lparr>table_items = [(2, ''Laptop Pro'', None, 1200.5)], sqlite_sequence = 2\<rparr>) = 3
   \<and> alloc (SQLiteBackend \<lparr>table_items = [], sqlite_sequence = 2\<rparr>) = 3
   \<and> create_item (SQLiteBackend \<lparr>table_items = [(2, ''Laptop Pro'', None, 1200.5)], sqlite_sequence = 2\<rparr>) laptop
       = (SQLiteBackend \<lparr>table_items = [(2, ''Laptop Pro'', None, 1200.5), (3, ''Laptop'', Some ''Fast'', 1200.5)],
                          sqlite_sequence = 3\<rparr>,
          \<lparr>name = ''Laptop'', description = Some ''Fast'', price = 1200.5, item_id = 3\<rparr>)
   \<and> (3::int) \<notin> set [1, 2]"
proof -
  let ?b = "SQLiteBackend \<lparr>table_items = [(2, ''Laptop Pro'', None, 1200.5)], sqlite_sequence = 2\<rparr>"
  have h: "run (fresh SQLITE) [Create laptop, Delete 1, Create laptop_pro]
     = (?b,
        [Created \<lparr>name = ''Laptop'', description = Some ''Fast'', price = 1200.5, item_id = 1\<rparr>,
         Deleted True,
         Created \<lparr>name = ''Laptop Pro'', description = None, price = 1200.5, item_id = 2\<rparr>])"
    by (simp add: store_defs laptop_def laptop_pro_def)
  have g: "get_item ?b 2
       = Inr (Some \<lparr>name = ''Laptop Pro'', description = None, price = 1200.5, item_id = 2\<rparr>)"
    by (simp add: store_defs)
  have u: "update_item ?b 2 laptop
       = (SQLiteBackend \<lparr>table_items = [(2, ''Laptop'', Some ''Fast'', 1200.5)], sqlite_sequence = 2\<rparr>,
          Inr (Some \<lparr>name = ''Laptop'', description = Some ''Fast'', price = 1200.5, item_id = 2\<rparr>))"
    by (simp add: store_defs laptop_def)
  have p: "perform ?b (Delete 2)
       = (SQLiteBackend \<lparr>table_items = [], sqlite_sequence = 2\<rparr>, Deleted True)"
    by (simp add: store_defs)
  have c: "create_item ?b laptop
       = (SQLiteBackend \<lparr>table_items = [(2, ''Laptop Pro'', None, 1200.5), (3, ''Laptop'', Some ''Fast'', 1200.5)],
                          sqlite_sequence = 3\<rparr>,
          \<lparr>name = ''Laptop'', description = Some ''Fast'', price = 1200.5, item_id = 3\<rparr>)"
    by (simp add: store_defs laptop_def)
  note T = ids_assigned_once_never_reused[OF h,
      where i = 2 and d = laptop and c = "Delete 2" and d' = laptop
        and cur = "\<lparr>name = ''Laptop Pro'', description = None, price = 1200.5, item_id = 2\<rparr>"
        and bu = "SQLiteBackend \<lparr>table_items = [(2, ''Laptop'', Some ''Fast'', 1200.5)], sqlite_sequence = 2\<rparr>"
        and res = "Inr (Some \<lparr>name = ''Laptop'', description = Some ''Fast'', price = 1200.5, item_id = 2\<rparr>)"
        and bp = "SQLiteBackend \<lparr>table_items = [], sqlite_sequence = 2\<rparr>" and r = "Deleted True"
        and bc = "SQLiteBackend \<lparr>table_items = [(2, ''Laptop Pro'', None, 1200.5), (3, ''Laptop'', Some ''Fast'', 1200.5)],
                          sqlite_sequence = 3\<rparr>"
        and it = "\<lparr>name = ''Laptop'', description = Some ''Fast'', price = 1200.5, item_id = 3\<rparr>"]
  from T h g u p c show ?thesis by simp
qed

subsection \<open>Partial update\<close>

text \<open>
  C1. The contract asks that an update change only the fields the draft sets. In memory
  and in the key-value store it does (\<open>partial_update_in_memory_and_redis\<close>); the
  relational backend writes all three columns (\<open>full_overwrite_in_sqlite\<close>). On the
  stored item (1, Laptop, Fast, 1200.5), the update with the draft \<open>laptop_pro\<close>, a valid
  draft (\<open>laptop_pro_valid\<close>) that sets name and price and leaves description unset,
  returns and stores description \<open>None\<close> in the relational backend, and keeps \<open>Fast\<close> in
  the other two.
\<close>

theorem sqlite_update_resets_omitted_description:
  "Description \<notin> model_fields_set laptop_pro
   \<and> get_item (SQLiteBackend one_row_db) 1
       = Inr (Some \<lparr>name = ''Laptop'', description = Some ''Fast'', price = 1200.5, item_id = 1\<rparr>)
   \<and> update_item (SQLiteBackend one_row_db) 1 laptop_pro
       = (SQLiteBackend \<lparr>table_items = [(1, ''Laptop Pro'', None, 1200.5)], sqlite_sequence = 1\<rparr>,
          Inr (Some \<lparr>name = ''Laptop Pro'', description = None, price = 1200.5, item_id = 1\<rparr>))
   \<and> get_item (InMemoryBackend laptop_shelf) 1
       = Inr (Some \<lparr>name = ''Laptop'', description = Some ''Fast'', price = 1200.5, item_id = 1\<rparr>)
   \<and> snd (update_item (InMemoryBackend laptop_shelf) 1 laptop_pro)
       = Inr (Some \<lparr>name = ''Laptop Pro'', description = Some ''Fast'', price = 1200.5, item_id = 1\<rparr>)
   \<and> get_item (RedisBackend laptop_keys) 1
       = Inr (Some \<lparr>name = ''Laptop'', description = Some ''Fast'', price = 1200.5, item_id = 1\<rparr>)
   \<and> snd (update_item (RedisBackend laptop_keys) 1 laptop_pro)
       = Inr (Some \<lparr>name = ''Laptop Pro'', description = Some ''Fast'', price = 1200.5, item_id = 1\<rparr>)"
proof -
  have v: "Description \<notin> model_fields_set laptop_pro"
    by (simp add: laptop_pro_def)
  have s: "get_item (SQLiteBackend one_row_db) 1
       = Inr (Some \<lparr>name = ''Laptop'', description = Some ''Fast'', price = 1200.5, item_id = 1\<rparr>)
   \<and> update_item (SQLiteBackend one_row_db) 1 laptop_pro
       = (SQLiteBackend \<lparr>table_items = [(1, ''Laptop Pro'', None, 1200.5)], sqlite_sequence = 1\<rparr>,
          Inr (Some \<lparr>name = ''Laptop Pro'', description = None, price = 1200.5, item_id = 1\<rparr>))"
    by (simp add: one_row_db_def laptop_pro_def sql_get_item_def sql_select_by_id_def
        sql_update_item_def sql_update_def bind_int_def sqlite_int_def Let_def)
  have m: "get_item (InMemoryBackend laptop_shelf) 1
       = Inr (Some \<lparr>name = ''Laptop'', description = Some ''Fast'', price = 1200.5, item_id = 1\<rparr>)
   \<and> snd (update_item (InMemoryBackend laptop_shelf) 1 laptop_pro)
       = Inr (Some \<lparr>name = ''Laptop Pro'', description = Some ''Fast'', price = 1200.5, item_id = 1\<rparr>)"
    by (simp add: laptop_shelf_def laptop_pro_def mem_get_item_def mem_update_item_def
        model_copy_update_def Let_def)
  have r: "get_item (RedisBackend laptop_keys) 1
       = Inr (Some \<lparr>name = ''Laptop'', description = Some ''Fast'', price = 1200.5, item_id = 1\<rparr>)
   \<and> snd (update_item (RedisBackend laptop_keys) 1 laptop_pro)
       = Inr (Some \<lparr>name = ''Laptop Pro'', description = Some ''Fast'', price = 1200.5, item_id = 1\<rparr>)"
    by (simp add: laptop_keys_def laptop_pro_def redis_get_item_def redis_get_def
        redis_update_item_def redis_set_def model_dump_json_def model_copy_update_def item_key_1
        Let_def)
  from v s m r show ?thesis by blast
qed


subsection \<open>The name filter\<close>

text \<open>
  C4. The contract asks that a name filter select the items whose name contains it,
  letter case aside. In memory and in the key-value store the listing is exactly that
  (\<open>list_items_in_memory_and_redis\<close>); the relational backend hands the filter to
  \<open>LIKE\<close> between two \<open>%\<close>, where \<open>%\<close> and \<open>_\<close> inside the filter are wildcards, and
  agrees with the other two on ASCII names and every ASCII filter free of them
  (\<open>list_items_sqlite_without_wildcards\<close>). Over Apple, Orange and Pineapple, the
  filter \<open>%\<close> lists all three items in the relational backend although none of the names
  contains that character, and none in memory; the filter \<open>apple\<close> lists Apple and
  Pineapple in both.
\<close>

theorem sqlite_name_filter_reads_wildcards:
  "list_items (SQLiteBackend fruit_table) (Some ''%'') None
     = [\<lparr>name = ''Apple'', description = None, price = 10, item_id = 1\<rparr>,
        \<lparr>name = ''Orange'', description = None, price = 20, item_id = 2\<rparr>,
        \<lparr>name = ''Pineapple'', description = None, price = 30, item_id = 3\<rparr>]
   \<and> \<not> sublist (lower ''%'') (lower ''Apple'')
   \<and> \<not> sublist (lower ''%'') (lower ''Orange'')
   \<and> \<not> sublist (lower ''%'') (lower ''Pineapple'')
   \<and> list_items (InMemoryBackend fruit_shelf) (Some ''%'') None = []
   \<and> list_items (SQLiteBackend fruit_table) (Some ''apple'') None
     = [\<lparr>name = ''Apple'', description = None, price = 10, item_id = 1\<rparr>,
        \<lparr>name = ''Pineapple'', description = None, price = 30, item_id = 3\<rparr>]
   \<and> list_items (InMemoryBackend fruit_shelf) (Some ''apple'') None
     = [\<lparr>name = ''Apple'', description = None, price = 10, item_id = 1\<rparr>,
        \<lparr>name = ''Pineapple'', description = None, price = 30, item_id = 3\<rparr>]"
proof -
  have a: "list_items (SQLiteBackend fruit_table) (Some ''%'') None
     = [\<lparr>name = ''Apple'', description = None, price = 10, item_id = 1\<rparr>,
        \<lparr>name = ''Orange'', description = None, price = 20, item_id = 2\<rparr>,
        \<lparr>name = ''Pineapple'', description = None, price = 30, item_id = 3\<rparr>]"
    by (simp add: fruit_table_def sql_list_items_def sql_select_where_def truthy_str_def
        truthy_float_def string_defs)
  have b: "\<not> sublist (lower ''%'') (lower ''Apple'') \<and> \<not> sublist (lower ''%'') (lower ''Orange'')
      \<and> \<not> sublist (lower ''%'') (lower ''Pineapple'')"
    by (simp add: str_in_sublist[symmetric] string_defs)
  have c: "list_items (InMemoryBackend fruit_shelf) (Some ''%'') None = []"
    by (simp add: fruit_shelf_def mem_list_items_def filter_step_def truthy_str_def
        truthy_float_def string_defs)
  have d: "list_items (SQLiteBackend fruit_table) (Some ''apple'') None
     = [\<lparr>name = ''Apple'', description = None, price = 10, item_id = 1\<rparr>,
        \<lparr>name = ''Pineapple'', description = None, price = 30, item_id = 3\<rparr>]"
    by (simp add: fruit_table_def sql_list_items_def sql_select_where_def truthy_str_def
        truthy_float_def string_defs)
  have e: "list_items (InMemoryBackend fruit_shelf) (Some ''apple'') None
     = [\<lparr>name = ''Apple'', description = None, price = 10, item_id = 1\<rparr>,
        \<lparr>name = ''Pineapple'', description = None, price = 30, item_id = 3\<rparr>]"
    by (simp add: fruit_shelf_def mem_list_items_def filter_step_def truthy_str_def
        truthy_float_def string_defs)
  from a b c d e show ?thesis by blast
qed

end
